theory Spec2Isabelle
  imports Complex_Main "HOL-Library.AList" "HOL-Library.Sublist"
begin

section \<open>The build task of guessface-api\<close>

text \<open>
  The theory embeds \<^verbatim>\<open>tasks/build-api.js\<close>: the task that reads the rounds and
  questions of the content tree, has ImageMagick identify and resize the three images
  of every question, and writes \<^verbatim>\<open>index.json\<close> once every round is ready.

  The program is written with Q promises. A promise is modelled by the state it ends
  in: fulfilled with a value, rejected with an error, or never settled. Whatever the
  program does not decide is an input of the model, gathered in the record
  \<^verbatim>\<open>env\<close>: the content of the question files, what \<^verbatim>\<open>im.identify\<close> and
  \<^verbatim>\<open>im.resize\<close> answer, the order in which their callbacks arrive, and the
  directories that exist before the build. Every external call is taken to call back
  once. The master index \<^verbatim>\<open>src/questions/index.json\<close> is taken to hold a list of
  rounds, each with a title, a list of question directories and possibly an example;
  a question file may hold any JSON value. The informational lines
  \<^verbatim>\<open>Started:\<close> and \<^verbatim>\<open>Completed:\<close> of the console are left out.

  The file system is followed as far as the output directory goes: the build deletes
  \<^verbatim>\<open>config.apiOutputDir\<close> first, only \<^verbatim>\<open>mkdirParent\<close> in
  \<^verbatim>\<open>createImageVariant\<close> makes directories again, and writing \<^verbatim>\<open>index.json\<close>
  throws when its directory is not there. Reading an image that was identified and
  writing a variant into the directory just made for it are taken to succeed.

  Two facts of Q are used throughout. A handler given to \<^verbatim>\<open>then\<close> runs only when
  its promise is fulfilled, and an error thrown inside it rejects the promise that
  \<^verbatim>\<open>then\<close> returned instead of leaving the handler's caller; the program keeps
  none of the promises that \<^verbatim>\<open>then\<close> returns, so such an error reaches nobody and
  what the handler had still to do is not done. The handlers of a promise run in the
  order they were registered, and \<^verbatim>\<open>Q.allSettled\<close> registers its own after those
  of the program: what the handlers of the children have saved is all there when the
  handler of the settle-all runs.
\<close>

subsection \<open>JavaScript strings\<close>

text \<open>Number to string, as string concatenation does it for a non-negative integer.\<close>

definition digitChar :: "nat \<Rightarrow> char" where
  "digitChar d = ''0123456789'' ! d"

function showNat :: "nat \<Rightarrow> string" where
  "showNat n = (if n < 10 then [digitChar n] else showNat (n div 10) @ [digitChar (n mod 10)])"
  by pat_completeness auto
termination
  by (relation "measure id") auto

declare showNat.simps [simp del]

text \<open>
  \<^verbatim>\<open>String.prototype.split\<close> with a string separator: the pieces between the
  occurrences of the separator, found from the left and not overlapping; with the empty
  separator, the characters of the string.
\<close>

fun splitFrom :: "string \<Rightarrow> string \<Rightarrow> string \<Rightarrow> string list" where
  "splitFrom sep acc [] = [rev acc]"
| "splitFrom sep acc (c # cs) =
     (if sep \<noteq> [] \<and> take (length sep) (c # cs) = sep
      then rev acc # splitFrom sep [] (drop (length sep) (c # cs))
      else splitFrom sep (c # acc) cs)"

definition jsSplit :: "string \<Rightarrow> string \<Rightarrow> string list" where
  "jsSplit s sep = (if sep = [] then map (\<lambda>c. [c]) s else splitFrom sep [] s)"

subsection \<open>Values, errors and promises\<close>

text \<open>A question's identity is a number or a string.\<close>

datatype jsval = Num nat | Str string

fun showId :: "jsval \<Rightarrow> string" where
  "showId (Num n) = showNat n"
| "showId (Str s) = s"

text \<open>
  The value of a JSON file, as \<^verbatim>\<open>require\<close> returns it (numbers are kept as
  integers), and the test \<^verbatim>\<open>if (v)\<close> on it.
\<close>

datatype json =
    JNull
  | JBool bool
  | JNum int
  | JStr string
  | JArr "json list"
  | JObj "(string \<times> json) list"

fun truthy :: "json \<Rightarrow> bool" where
  "truthy JNull = False"
| "truthy (JBool b) = b"
| "truthy (JNum n) = (n \<noteq> 0)"
| "truthy (JStr s) = (s \<noteq> [])"
| "truthy (JArr vs) = True"
| "truthy (JObj obj) = True"

text \<open>
  The errors: \<^verbatim>\<open>require\<close> failing on a file; \<^verbatim>\<open>No metadata\<close>;
  \<^verbatim>\<open>"<imgPath>" not found\<close>; the error of \<^verbatim>\<open>im.resize\<close>; the
  \<^verbatim>\<open>TypeError\<close> of reading a property (named) of \<^verbatim>\<open>undefined\<close>; and
  \<^verbatim>\<open>ENOENT\<close> on writing a file (named) whose directory does not exist.
\<close>

datatype jsError =
    RequireError string
  | NoMetadata
  | NotFound string
  | ResizeError
  | TypeError string
  | ENOENT string

datatype 'a promise = Pending | Fulfilled 'a | Rejected jsError

fun settled :: "'a promise \<Rightarrow> bool" where
  "settled Pending = False"
| "settled (Fulfilled v) = True"
| "settled (Rejected e) = True"

fun fulfilled :: "'a promise \<Rightarrow> bool" where
  "fulfilled Pending = False"
| "fulfilled (Fulfilled v) = True"
| "fulfilled (Rejected e) = False"

text \<open>
  \<^verbatim>\<open>Q.allSettled\<close>: fulfilled once every promise of the list has settled, whether
  fulfilled or rejected, and never when one of them never settles.
\<close>

definition allSettled :: "'a promise list \<Rightarrow> 'a promise list promise" where
  "allSettled ps = (if list_all settled ps then Fulfilled ps else Pending)"

text \<open>
  A deferred that a handler \<^verbatim>\<open>p.then(function (v) { ... d.resolve(f v) })\<close> resolves:
  the handler runs when \<^verbatim>\<open>p\<close> is fulfilled only, so the deferred never settles when
  \<^verbatim>\<open>p\<close> is rejected or never settles.
\<close>

fun resolvedIn :: "'a promise \<Rightarrow> ('a \<Rightarrow> 'b) \<Rightarrow> 'b promise" where
  "resolvedIn (Fulfilled v) f = Fulfilled (f v)"
| "resolvedIn (Rejected e) f = Pending"
| "resolvedIn Pending f = Pending"

text \<open>The values of the fulfilled promises of a list, the others skipped.\<close>

fun fulfilledValues :: "'a promise list \<Rightarrow> 'a list" where
  "fulfilledValues [] = []"
| "fulfilledValues (Fulfilled v # ps) = v # fulfilledValues ps"
| "fulfilledValues (p # ps) = fulfilledValues ps"

text \<open>
  What a call leaves behind: the promise it returns and the errors it passed to
  \<^verbatim>\<open>console.log\<close>.
\<close>

record 'a run =
  future :: "'a promise"
  logs :: "jsError list"

text \<open>
  A function that may throw returns its value or the error thrown. \<^verbatim>\<open>forEach\<close>
  with a callback that may throw stops at the first call that does.
\<close>

fun forEachThrowing :: "('a \<Rightarrow> 's \<Rightarrow> jsError + 's) \<Rightarrow> 'a list \<Rightarrow> 's \<Rightarrow> jsError + 's" where
  "forEachThrowing f [] st = Inr st"
| "forEachThrowing f (x # xs) st =
     (case f x st of
        Inl e \<Rightarrow> Inl e
      | Inr st' \<Rightarrow> forEachThrowing f xs st')"

subsection \<open>Configuration\<close>

record config =
  apiOutputDir :: string
  imageOutputSubDir :: string
  apiPathPrefix :: string
  imgSizes :: "nat list"
  imgFormat :: string
  imThreadConcurrency :: nat

definition defaults :: config where
  "defaults = \<lparr> apiOutputDir = ''./dist/api/'', imageOutputSubDir = ''imgs/'',
     apiPathPrefix = ''/'', imgSizes = [320, 640, 960], imgFormat = ''jpg'',
     imThreadConcurrency = 20 \<rparr>"

subsection \<open>The environment\<close>

text \<open>
  A question file \<^verbatim>\<open>index.json\<close> is meant to hold an object of author fields.
  ImageMagick's metadata is kept by its two dimensions, \<open>0\<close> standing for a dimension
  that is missing (both are falsy in the test of \<^verbatim>\<open>createImageVariants\<close>).
\<close>

type_synonym jsonObject = "(string \<times> json) list"

record metadata =
  height :: nat
  width :: nat

text \<open>
  A call of \<^verbatim>\<open>im.resize\<close> is named by the round, the question and the image it is
  made for and by the position of its size in \<^verbatim>\<open>config.imgSizes\<close>; the two calls of
  \<^verbatim>\<open>im.identify\<close> of an image are named by the round, the question and the image.
\<close>

type_synonym thread = "nat \<times> jsval \<times> string \<times> nat"

text \<open>
  The directories that exist, each named by the text of its path with a closing
  \<^verbatim>\<open>/\<close>; the empty name is the working directory.
\<close>

type_synonym dirs = "string \<Rightarrow> bool"

record env =
  requireJson :: "string \<Rightarrow> jsError + json"
  identify :: "string \<Rightarrow> metadata option"
  jpgAnswersFirst :: "nat \<times> jsval \<times> string \<Rightarrow> bool"
  resizeError :: "thread \<Rightarrow> bool"
  resizeRank :: "thread \<Rightarrow> nat"
  dirExisted :: dirs

text \<open>
  \<^verbatim>\<open>requireJson\<close> is \<^verbatim>\<open>require\<close> on a question file (\<open>Inl\<close> when it throws:
  the file is absent or does not parse); \<^verbatim>\<open>identify\<close> is the metadata that
  \<^verbatim>\<open>im.identify\<close> hands to its callback (\<open>None\<close> for \<^verbatim>\<open>undefined\<close>);
  \<^verbatim>\<open>jpgAnswersFirst\<close> tells whether, of the two identifications of an image, the
  one of the jpg file calls back before the one of the png file;
  \<^verbatim>\<open>resizeError\<close> tells whether \<^verbatim>\<open>im.resize\<close> calls back with an error;
  \<^verbatim>\<open>resizeRank\<close> orders the calls of \<^verbatim>\<open>newThread\<close> on the resize manager,
  which are made from the callbacks of \<^verbatim>\<open>mkdirParent\<close>; \<^verbatim>\<open>dirExisted\<close> tells
  which directories exist when the build starts.

  The two orders are left to the environment whatever the capacity of the managers is.
  A manager that runs its tasks one at a time would fix the first (png is submitted
  first); leaving it open adds runs to the model and takes none away.
\<close>

subsection \<open>The thread manager\<close>

text \<open>
  Modelled from the spec: \<^verbatim>\<open>tasks/helpers/ThreadManager.js\<close> is not among the
  sources. The spec gives a limiter of a fixed capacity \<open>C\<close>: at most \<open>C\<close> submitted
  tasks are in flight, further submissions queue in FIFO order and begin only when a
  slot frees. The program submits a task with \<^verbatim>\<open>newThread\<close> and the task frees its
  slot by calling \<^verbatim>\<open>thread.resolve()\<close>. The fields \<open>begun\<close> and \<open>submitted\<close>
  record the history: the tasks in the order they began and were submitted.
\<close>

record 't threadManager =
  capacity :: nat
  running :: "'t list"
  queue :: "'t list"
  begun :: "'t list"
  submitted :: "'t list"

definition ThreadManager :: "nat \<Rightarrow> 't threadManager" where
  "ThreadManager c = \<lparr> capacity = c, running = [], queue = [], begun = [], submitted = [] \<rparr>"

definition newThread :: "'t \<Rightarrow> 't threadManager \<Rightarrow> 't threadManager" where
  "newThread t m =
     (if length (running m) < capacity m
      then m\<lparr> running := running m @ [t], begun := begun m @ [t],
              submitted := submitted m @ [t] \<rparr>
      else m\<lparr> queue := queue m @ [t], submitted := submitted m @ [t] \<rparr>)"

definition threadResolve :: "'t \<Rightarrow> 't threadManager \<Rightarrow> 't threadManager" where
  "threadResolve t m =
     (if t \<in> set (running m)
      then (case queue m of
              [] \<Rightarrow> m\<lparr> running := remove1 t (running m) \<rparr>
            | q # qs \<Rightarrow> m\<lparr> running := remove1 t (running m) @ [q], queue := qs,
                           begun := begun m @ [q] \<rparr>)
      else m)"

datatype 't managerEvent = NewThread 't | ThreadResolve 't

fun managerStep :: "'t threadManager \<Rightarrow> 't managerEvent \<Rightarrow> 't threadManager" where
  "managerStep m (NewThread t) = newThread t m"
| "managerStep m (ThreadResolve t) = threadResolve t m"

text \<open>
  The two managers of the program, both made with \<^verbatim>\<open>config.imThreadConcurrency\<close>,
  and the events of a run, each on one of them.
\<close>

record 't managers =
  threadManager_imIdentify :: "'t threadManager"
  threadManager_imResize :: "'t threadManager"

definition setUpManagers :: "config \<Rightarrow> 't managers" where
  "setUpManagers cfg =
     \<lparr> threadManager_imIdentify = ThreadManager (imThreadConcurrency cfg),
       threadManager_imResize = ThreadManager (imThreadConcurrency cfg) \<rparr>"

datatype 't runEvent = OnIdentify "'t managerEvent" | OnResize "'t managerEvent"

fun runStep :: "'t managers \<Rightarrow> 't runEvent \<Rightarrow> 't managers" where
  "runStep ms (OnIdentify e) =
     ms\<lparr> threadManager_imIdentify := managerStep (threadManager_imIdentify ms) e \<rparr>"
| "runStep ms (OnResize e) =
     ms\<lparr> threadManager_imResize := managerStep (threadManager_imResize ms) e \<rparr>"

fun identifyEvents :: "'t runEvent list \<Rightarrow> 't managerEvent list" where
  "identifyEvents [] = []"
| "identifyEvents (OnIdentify e # es) = e # identifyEvents es"
| "identifyEvents (OnResize e # es) = identifyEvents es"

fun resizeEvents :: "'t runEvent list \<Rightarrow> 't managerEvent list" where
  "resizeEvents [] = []"
| "resizeEvents (OnIdentify e # es) = resizeEvents es"
| "resizeEvents (OnResize e # es) = e # resizeEvents es"

text \<open>
  Modelled from the spec: the tasks of a submission sequence that a manager ever begins,
  when the tasks for which \<open>holds\<close> is true never call \<^verbatim>\<open>thread.resolve()\<close> and
  all others do. Tasks begin in the order submitted, and one begins as long as fewer
  tasks than the capacity hold their slot for ever. Lemma \<open>begins_quiescent\<close> below
  derives this from the steps of the manager.
\<close>

fun begins :: "nat \<Rightarrow> ('t \<Rightarrow> bool) \<Rightarrow> 't list \<Rightarrow> 't list" where
  "begins free holds [] = []"
| "begins free holds (t # ts) =
     (if free = 0 then []
      else t # begins (if holds t then free - 1 else free) holds ts)"

subsection \<open>The output directory\<close>

text \<open>
  Modelled from the spec: \<^verbatim>\<open>tasks/helpers/deleteFolderRecursive.js\<close> and
  \<^verbatim>\<open>tasks/helpers/mkdirParent.js\<close> are not among the sources. By the spec the
  build destroys the existing output tree (idempotent if absent) and output
  subdirectories are created as needed, idempotently. So
  \<^verbatim>\<open>deleteFolderRecursive\<close> takes away the folder and every directory under it
  (nothing for the empty path, which names no folder), and \<^verbatim>\<open>mkdirParent\<close> makes
  the directory and every directory on the way to it.

  The directory of a file is the text of its path up to the last \<^verbatim>\<open>/\<close>; a file
  can be written when that directory exists, and the working directory always does.
\<close>

definition asFolder :: "string \<Rightarrow> string" where
  "asFolder p = (if p = [] \<or> last p = CHR ''/'' then p else p @ ''/'')"

definition deleteFolderRecursive :: "string \<Rightarrow> dirs \<Rightarrow> dirs" where
  "deleteFolderRecursive p tree = (\<lambda>d. tree d \<and> \<not> (p \<noteq> [] \<and> prefix (asFolder p) d))"

definition mkdirParent :: "string \<Rightarrow> dirs \<Rightarrow> dirs" where
  "mkdirParent p tree = (\<lambda>d. tree d \<or> (d \<noteq> [] \<and> last d = CHR ''/'' \<and> prefix d (asFolder p)))"

definition dirname :: "string \<Rightarrow> string" where
  "dirname file = rev (dropWhile (\<lambda>c. c \<noteq> CHR ''/'') (rev file))"

definition dirExists :: "dirs \<Rightarrow> string \<Rightarrow> bool" where
  "dirExists tree d = (d = [] \<or> tree d)"

subsection \<open>The data of the index\<close>

text \<open>
  A question in the index: the fields of its file, and the three properties that the
  program sets on it, kept apart from the fields of the file (a field of the file of
  the same name is overwritten).
\<close>

record imgVariantsData =
  aspectRatio :: "rat option"
  srcs :: "(nat \<times> string) list"

record titled =
  title :: string

record roundRef = titled +
  roundId :: nat

record questionData =
  author :: jsonObject
  questionId :: jsval
  roundData :: roundRef
  imgs :: "(string \<times> imgVariantsData) list option"

record roundSpec = titled +
  questions :: "string list"
  example :: "string option"

record roundData = roundRef +
  questionsData :: "questionData option list"
  exampleData :: "questionData option"

record apiData =
  rounds :: "roundData option list"

text \<open>
  The assignment \<^verbatim>\<open>xs[i] = v\<close> on an array: past the end, JavaScript lengthens the
  array and leaves holes.
\<close>

definition setIndex :: "'a option list \<Rightarrow> nat \<Rightarrow> 'a \<Rightarrow> 'a option list" where
  "setIndex xs i v =
     (if i < length xs then xs[i := Some v]
      else xs @ replicate (i - length xs) None @ [Some v])"

subsection \<open>createImageVariant\<close>

text \<open>
  The path of a variant in the API. \<^verbatim>\<open>split\<close> gives one piece when the separator
  does not occur; otherwise the code takes the piece of index 1.
\<close>

definition apiFilePath :: "config \<Rightarrow> string \<Rightarrow> string" where
  "apiFilePath cfg outputFileName =
     (case jsSplit outputFileName (apiOutputDir cfg) of
        [] \<Rightarrow> apiPathPrefix cfg @ ''undefined''
      | [whole] \<Rightarrow> whole
      | before # after # rest \<Rightarrow> apiPathPrefix cfg @ after)"

record imgFileData =
  metadata :: metadata
  path :: string
  imgName :: string

definition outputFileName :: "config \<Rightarrow> imgFileData \<Rightarrow> string \<Rightarrow> nat \<Rightarrow> nat \<Rightarrow> jsval \<Rightarrow> string" where
  "outputFileName cfg srcImg outputDir size' roundId' questionId' =
     (outputDir @ ''/'' @ imgName srcImg) @ ''/'' @
       ''r'' @ showNat roundId' @
       ''q'' @ showId questionId' @ ''.'' @
       imgName srcImg @ ''.'' @ showNat size' @
       ''.'' @ imgFormat cfg"

text \<open>
  The promise of one variant. \<open>began\<close> tells whether the resize manager ever begins
  the task; \<open>k\<close> is the position of the size in \<^verbatim>\<open>config.imgSizes\<close>. When
  \<^verbatim>\<open>im.resize\<close> reports an error the promise is rejected and the function returns
  before \<^verbatim>\<open>thread.resolve()\<close>. The directory that the call has
  \<^verbatim>\<open>mkdirParent\<close> make is \<open>variantDir\<close> below.
\<close>

definition createImageVariant ::
  "env \<Rightarrow> config \<Rightarrow> (thread \<Rightarrow> bool) \<Rightarrow> imgFileData \<Rightarrow> string \<Rightarrow> nat \<Rightarrow> nat \<Rightarrow> nat \<Rightarrow> jsval
     \<Rightarrow> string promise" where
  "createImageVariant env cfg began srcImg outputDir size' k roundId' questionId' =
     (if \<not> began (roundId', questionId', imgName srcImg, k) then Pending
      else if resizeError env (roundId', questionId', imgName srcImg, k)
        then Rejected ResizeError
      else Fulfilled (apiFilePath cfg (outputFileName cfg srcImg outputDir size' roundId' questionId')))"

subsection \<open>createImageVariants\<close>

text \<open>
  The callback of \<^verbatim>\<open>im.identify\<close> for one image type: metadata is saved to the
  shared \<^verbatim>\<open>imgFileData\<close>, over what an earlier callback saved.
\<close>

definition identifyCallback ::
  "env \<Rightarrow> string \<Rightarrow> string \<Rightarrow> string \<Rightarrow> imgFileData option \<Rightarrow> imgFileData option" where
  "identifyCallback env imgPath imgName' imgType imgFileData =
     (case identify env (imgPath @ ''.'' @ imgType) of
        Some md \<Rightarrow> Some \<lparr> metadata = md, path = imgPath @ ''.'' @ imgType, imgName = imgName' \<rparr>
      | None \<Rightarrow> imgFileData)"

definition foundImgPromise :: "env \<Rightarrow> config \<Rightarrow> string \<Rightarrow> string \<Rightarrow> unit promise" where
  "foundImgPromise env cfg imgPath imgType =
     (if imThreadConcurrency cfg = 0 then Pending
      else case identify env (imgPath @ ''.'' @ imgType) of
             Some md \<Rightarrow> Fulfilled ()
           | None \<Rightarrow> Rejected NoMetadata)"

definition identifyOrder :: "env \<Rightarrow> nat \<times> jsval \<times> string \<Rightarrow> string list" where
  "identifyOrder env r = (if jpgAnswersFirst env r then [''jpg'', ''png''] else [''png'', ''jpg''])"

text \<open>\<^verbatim>\<open>imgFileData\<close> once both identifications have called back.\<close>

definition identified ::
  "env \<Rightarrow> config \<Rightarrow> string \<Rightarrow> string \<Rightarrow> nat \<Rightarrow> jsval \<Rightarrow> imgFileData option" where
  "identified env cfg imgPath imgName' roundId' questionId' =
     (if imThreadConcurrency cfg = 0 then None
      else fold (identifyCallback env imgPath imgName')
             (identifyOrder env (roundId', questionId', imgName')) None)"

text \<open>
  The aspect ratio, \<^verbatim>\<open>null\<close> when a dimension is missing. The quotient is kept
  exact here; JavaScript rounds it to a double.
\<close>

definition aspectRatioOf :: "metadata \<Rightarrow> rat option" where
  "aspectRatioOf md =
     (if height md \<noteq> 0 \<and> width md \<noteq> 0 then Some (of_nat (height md) / of_nat (width md))
      else None)"

text \<open>The handlers \<^verbatim>\<open>imgVariantsData.srcs[size] = fileName\<close> of the fulfilled variants.\<close>

fun saveSrcs :: "(nat \<times> string promise) list \<Rightarrow> (nat \<times> string) list \<Rightarrow> (nat \<times> string) list" where
  "saveSrcs [] acc = acc"
| "saveSrcs ((size', Fulfilled fileName) # ps) acc = saveSrcs ps (AList.update size' fileName acc)"
| "saveSrcs (p # ps) acc = saveSrcs ps acc"

definition imgVariantPromises ::
  "env \<Rightarrow> config \<Rightarrow> (thread \<Rightarrow> bool) \<Rightarrow> imgFileData \<Rightarrow> string \<Rightarrow> nat \<Rightarrow> jsval
     \<Rightarrow> string promise list" where
  "imgVariantPromises env cfg began srcImg outputDir roundId' questionId' =
     map (\<lambda>(k, size'). createImageVariant env cfg began srcImg outputDir size' k roundId' questionId')
       (enumerate 0 (imgSizes cfg))"

text \<open>
  When neither identification has saved a path, the handler logs the error and throws
  it: \<^verbatim>\<open>imgProcessComplete\<close> is then never resolved, and the error goes to the
  promise that \<^verbatim>\<open>then\<close> returned, which is dropped.
\<close>

definition createImageVariants ::
  "env \<Rightarrow> config \<Rightarrow> (thread \<Rightarrow> bool) \<Rightarrow> string \<Rightarrow> string \<Rightarrow> string \<Rightarrow> nat \<Rightarrow> jsval
     \<Rightarrow> imgVariantsData run" where
  "createImageVariants env cfg began imgPath distDir imgName' roundId' questionId' =
     (let outputDir = distDir @ ''round-'' @ showNat roundId' @ ''/'' @
            ''question-'' @ showId questionId';
          foundImgPromises = map (foundImgPromise env cfg imgPath) [''png'', ''jpg'']
      in case allSettled foundImgPromises of
           Fulfilled found \<Rightarrow>
             (case identified env cfg imgPath imgName' roundId' questionId' of
                None \<Rightarrow> \<lparr> future = Pending, logs = [NotFound imgPath] \<rparr>
              | Some srcImg \<Rightarrow>
                  (let variants = imgVariantPromises env cfg began srcImg outputDir roundId' questionId'
                   in \<lparr> future = resolvedIn (allSettled variants)
                          (\<lambda>variantsSettled. \<lparr> aspectRatio = aspectRatioOf (metadata srcImg),
                                    srcs = saveSrcs (zip (imgSizes cfg) variants) [] \<rparr>),
                        logs = [] \<rparr>))
         | Pending \<Rightarrow> \<lparr> future = Pending, logs = [] \<rparr>
         | Rejected e \<Rightarrow> \<lparr> future = Pending, logs = [] \<rparr>)"

subsection \<open>createQuestionsImages\<close>

definition imgKeys :: "string list" where
  "imgKeys = [''a'', ''b'', ''mix'']"

fun tempImgsData :: "(string \<times> imgVariantsData run) list \<Rightarrow> (string \<times> imgVariantsData) list" where
  "tempImgsData [] = []"
| "tempImgsData ((name, r) # rs) =
     (case future r of
        Fulfilled imgVariantsData \<Rightarrow> (name, imgVariantsData) # tempImgsData rs
      | Pending \<Rightarrow> tempImgsData rs
      | Rejected e \<Rightarrow> tempImgsData rs)"

definition questionImgRuns ::
  "env \<Rightarrow> config \<Rightarrow> (thread \<Rightarrow> bool) \<Rightarrow> string \<Rightarrow> questionData \<Rightarrow> imgVariantsData run list" where
  "questionImgRuns env cfg began questionDir questionDataTemp =
     map (\<lambda>name. createImageVariants env cfg began
                   ((''./src/questions/'' @ questionDir) @ ''/'' @ name)
                   (apiOutputDir cfg @ imageOutputSubDir cfg) name
                   (roundId (roundData questionDataTemp)) (questionId questionDataTemp))
       imgKeys"

definition createQuestionsImages ::
  "env \<Rightarrow> config \<Rightarrow> (thread \<Rightarrow> bool) \<Rightarrow> string \<Rightarrow> questionData \<Rightarrow> questionData run" where
  "createQuestionsImages env cfg began questionDir questionDataTemp =
     (let imgRuns = questionImgRuns env cfg began questionDir questionDataTemp;
          imgPromises = map (\<lambda>r. resolvedIn (future r) (\<lambda>imgVariantsData. ())) imgRuns
      in \<lparr> future = resolvedIn (allSettled imgPromises)
             (\<lambda>imgsSettled. questionDataTemp\<lparr> imgs := Some (tempImgsData (zip imgKeys imgRuns)) \<rparr>),
           logs = concat (map logs imgRuns) \<rparr>)"

subsection \<open>getQuestionData and processRound\<close>

text \<open>The value of the question file, \<^verbatim>\<open>null\<close> with the error logged when \<^verbatim>\<open>require\<close> throws.\<close>

definition getQuestionData :: "env \<Rightarrow> string \<Rightarrow> json \<times> jsError list" where
  "getQuestionData env questionDir =
     (case requireJson env (''../src/questions/'' @ questionDir @ ''/index.json'') of
        Inl e \<Rightarrow> (JNull, [e])
      | Inr questionData \<Rightarrow> (questionData, []))"

text \<open>
  The loop body of \<^verbatim>\<open>processRound\<close>. Its state is the counter \<^verbatim>\<open>questionId\<close>,
  the calls of \<^verbatim>\<open>createQuestionsImages\<close> made so far, each by its two arguments, and
  the errors logged; \<open>ref\<close> is the object \<^verbatim>\<open>{roundId, title}\<close> saved on the question.
  \<^verbatim>\<open>processRound\<close> below makes the calls in this order.

  A value that is falsy is passed over. On a truthy value that is not a plain object
  the call of \<^verbatim>\<open>createQuestionsImages\<close> throws: the two assignments leave nothing
  on what \<^verbatim>\<open>_.clone\<close> returns (on a number, a string or \<^verbatim>\<open>true\<close> an assignment
  to a property does nothing, and an array is cloned by \<^verbatim>\<open>slice\<close>, which takes
  its elements only), so reading \<^verbatim>\<open>questionDataTemp.roundData.roundId\<close> is a
  \<^verbatim>\<open>TypeError\<close>, thrown before any promise is made and leaving
  \<^verbatim>\<open>processRound\<close> and \<^verbatim>\<open>buildApiMaster\<close>.
\<close>

type_synonym roundLoop = "nat \<times> (string \<times> questionData) list \<times> jsError list"

definition forEachQuestion :: "env \<Rightarrow> roundRef \<Rightarrow> string \<Rightarrow> bool \<Rightarrow> roundLoop \<Rightarrow> jsError + roundLoop" where
  "forEachQuestion env ref questionDir isExample st =
     (case st of (counter, calls, errs) \<Rightarrow>
        (case getQuestionData env questionDir of (questionDataTemp, logged) \<Rightarrow>
           (if \<not> truthy questionDataTemp then Inr (counter, calls, errs @ logged)
            else case questionDataTemp of
                   JObj obj \<Rightarrow>
                     (if \<not> isExample
                      then Inr (counter + 1,
                             calls @ [(questionDir, \<lparr> author = obj, questionId = Num counter,
                                                      roundData = ref, imgs = None \<rparr>)],
                             errs @ logged)
                      else Inr (counter,
                             calls @ [(questionDir, \<lparr> author = obj, questionId = Str ''e'',
                                                      roundData = ref, imgs = None \<rparr>)],
                             errs @ logged))
                 | _ \<Rightarrow> Inl (TypeError ''roundId''))))"

definition questionLoop :: "env \<Rightarrow> roundSpec \<Rightarrow> nat \<Rightarrow> jsError + roundLoop" where
  "questionLoop env roundData' i =
     (let ref = \<lparr> title = title roundData', roundId = i \<rparr>
      in case forEachThrowing (\<lambda>questionDir. forEachQuestion env ref questionDir False)
                (questions roundData') (0, [], []) of
           Inl e \<Rightarrow> Inl e
         | Inr st \<Rightarrow>
             (case example roundData' of
                None \<Rightarrow> Inr st
              | Some dir \<Rightarrow> if dir = [] then Inr st else forEachQuestion env ref dir True st))"

text \<open>The handler that saves a question once its promise is fulfilled.\<close>

definition saveQuestion :: "questionData \<Rightarrow> roundData \<Rightarrow> roundData" where
  "saveQuestion q rd =
     (if questionId q \<noteq> Str ''e''
      then (case questionId q of
              Num n \<Rightarrow> rd\<lparr> questionsData := setIndex (questionsData rd) n q \<rparr>
            | Str s \<Rightarrow> rd)
      else rd\<lparr> exampleData := Some q \<rparr>)"

text \<open>
  What \<^verbatim>\<open>processRound\<close> does once the loop is over: the promises of the questions,
  and \<^verbatim>\<open>roundReadyPromise\<close>, resolved with the round when all of them have settled.
\<close>

definition roundReady ::
  "env \<Rightarrow> config \<Rightarrow> (thread \<Rightarrow> bool) \<Rightarrow> roundSpec \<Rightarrow> nat \<Rightarrow> roundLoop \<Rightarrow> roundData run" where
  "roundReady env cfg began roundData' i st =
     (case st of (counter, calls, errs) \<Rightarrow>
        (let questionRuns = map (\<lambda>(dir, q). createQuestionsImages env cfg began dir q) calls;
             questionPromises = map future questionRuns
         in \<lparr> future = resolvedIn (allSettled questionPromises)
                (\<lambda>questionsSettled. fold saveQuestion (fulfilledValues questionPromises)
                   \<lparr> title = title roundData', roundId = i, questionsData = [],
                     exampleData = None \<rparr>),
              logs = errs @ concat (map logs questionRuns) \<rparr>))"

definition processRound ::
  "env \<Rightarrow> config \<Rightarrow> (thread \<Rightarrow> bool) \<Rightarrow> roundSpec \<Rightarrow> nat \<Rightarrow> jsError + roundData run" where
  "processRound env cfg began roundData' i =
     (case questionLoop env roundData' i of
        Inl e \<Rightarrow> Inl e
      | Inr st \<Rightarrow> Inr (roundReady env cfg began roundData' i st))"

subsection \<open>The resize calls of a run\<close>

text \<open>
  The calls of \<^verbatim>\<open>createImageVariant\<close>, and so of \<^verbatim>\<open>mkdirParent\<close> and, from its
  callback, of \<^verbatim>\<open>newThread\<close> on the resize manager: one for each size of each image
  that was identified, of each question that was loaded. They reach the manager in the
  order of \<^verbatim>\<open>resizeRank\<close>; a call whose resize fails never frees its slot.
\<close>

definition roleThreads :: "env \<Rightarrow> config \<Rightarrow> string \<Rightarrow> string \<Rightarrow> nat \<Rightarrow> jsval \<Rightarrow> thread list" where
  "roleThreads env cfg imgPath imgName' roundId' questionId' =
     (case identified env cfg imgPath imgName' roundId' questionId' of
        None \<Rightarrow> []
      | Some srcImg \<Rightarrow>
          map (\<lambda>k. (roundId', questionId', imgName srcImg, k)) [0..<length (imgSizes cfg)])"

definition questionThreads :: "env \<Rightarrow> config \<Rightarrow> string \<Rightarrow> questionData \<Rightarrow> thread list" where
  "questionThreads env cfg questionDir q =
     concat (map (\<lambda>name. roleThreads env cfg ((''./src/questions/'' @ questionDir) @ ''/'' @ name)
                            name (roundId (roundData q)) (questionId q))
               imgKeys)"

definition roundThreads :: "env \<Rightarrow> config \<Rightarrow> roundSpec \<Rightarrow> nat \<Rightarrow> thread list" where
  "roundThreads env cfg roundData' i =
     (case questionLoop env roundData' i of
        Inl e \<Rightarrow> []
      | Inr (counter, calls, errs) \<Rightarrow>
          concat (map (\<lambda>(dir, q). questionThreads env cfg dir q) calls))"

definition resizeThreads :: "env \<Rightarrow> config \<Rightarrow> roundSpec list \<Rightarrow> thread list" where
  "resizeThreads env cfg content =
     concat (map (\<lambda>(i, roundData'). roundThreads env cfg roundData' i) (enumerate 0 content))"

definition resizeBegan :: "env \<Rightarrow> config \<Rightarrow> roundSpec list \<Rightarrow> thread \<Rightarrow> bool" where
  "resizeBegan env cfg content t =
     (t \<in> set (begins (imThreadConcurrency cfg) (resizeError env)
                  (sort_key (resizeRank env) (resizeThreads env cfg content))))"

text \<open>
  The directory that the call makes with \<^verbatim>\<open>mkdirParent\<close>: \<^verbatim>\<open>distDir\<close> of
  \<^verbatim>\<open>createQuestionsImages\<close>, then the round and the question as
  \<^verbatim>\<open>createImageVariants\<close> adds them, then the image as \<^verbatim>\<open>createImageVariant\<close>
  adds it. \<open>outputTree\<close> is the directories there are once every call has made its
  own, after the build has deleted \<^verbatim>\<open>config.apiOutputDir\<close>.
\<close>

definition variantDir :: "config \<Rightarrow> thread \<Rightarrow> string" where
  "variantDir cfg t =
     (case t of (roundId', questionId', imgName', k) \<Rightarrow>
        ((apiOutputDir cfg @ imageOutputSubDir cfg) @ ''round-'' @ showNat roundId' @ ''/'' @
            ''question-'' @ showId questionId') @ ''/'' @ imgName')"

definition outputTree :: "env \<Rightarrow> config \<Rightarrow> roundSpec list \<Rightarrow> dirs" where
  "outputTree env cfg content =
     fold mkdirParent (map (variantDir cfg) (resizeThreads env cfg content))
       (deleteFolderRecursive (apiOutputDir cfg) (dirExisted env))"

subsection \<open>buildApiMaster\<close>

text \<open>
  A build that returns leaves the promise \<^verbatim>\<open>taskComplete\<close>, the console errors, the
  files written with \<^verbatim>\<open>jsonfile.writeFileSync\<close>, and whether the line
  \<^verbatim>\<open>SUCCESS! JSON saved to API.\<close> was printed.
\<close>

record build = "unit run" +
  written :: "(string \<times> apiData) list"
  success :: bool

text \<open>
  \<^verbatim>\<open>jsonfile.writeFileSync\<close> throws when the directory of the file does not exist.
\<close>

definition saveJsonApi :: "config \<Rightarrow> dirs \<Rightarrow> apiData \<Rightarrow> jsError + string \<times> apiData" where
  "saveJsonApi cfg tree data =
     (let file = apiOutputDir cfg @ ''index.json''
      in if dirExists tree (dirname file) then Inr (file, data) else Inl (ENOENT file))"

text \<open>The loop over the rounds; it ends with the first \<^verbatim>\<open>processRound\<close> that throws.\<close>

definition forEachRound :: "env \<Rightarrow> config \<Rightarrow> roundSpec list \<Rightarrow> jsError + roundData run list" where
  "forEachRound env cfg content =
     forEachThrowing
       (\<lambda>(i, roundDataTemp) roundRuns.
          case processRound env cfg (resizeBegan env cfg content) roundDataTemp i of
            Inl e \<Rightarrow> Inl e
          | Inr roundReturned \<Rightarrow> Inr (roundRuns @ [roundReturned]))
       (enumerate 0 content) []"

text \<open>
  The handler of the settle-all of the rounds. When \<^verbatim>\<open>saveJsonApi\<close> throws in it,
  the success line is not printed and \<^verbatim>\<open>taskComplete\<close> is never resolved.
\<close>

definition taskComplete :: "config \<Rightarrow> dirs \<Rightarrow> roundData run list \<Rightarrow> build" where
  "taskComplete cfg tree roundRuns =
     (let roundPromises = map future roundRuns;
          apiData = \<lparr> rounds = fold (\<lambda>roundData' rs. setIndex rs (roundId roundData') roundData')
                                 (fulfilledValues roundPromises) [] \<rparr>
      in case allSettled roundPromises of
           Fulfilled roundsSettled \<Rightarrow>
             (case saveJsonApi cfg tree apiData of
                Inr file \<Rightarrow>
                  \<lparr> future = Fulfilled (), logs = concat (map logs roundRuns),
                    written = [file], success = True \<rparr>
              | Inl e \<Rightarrow>
                  \<lparr> future = Pending, logs = concat (map logs roundRuns),
                    written = [], success = False \<rparr>)
         | Pending \<Rightarrow>
             \<lparr> future = Pending, logs = concat (map logs roundRuns),
               written = [], success = False \<rparr>
         | Rejected e \<Rightarrow>
             \<lparr> future = Pending, logs = concat (map logs roundRuns),
               written = [], success = False \<rparr>)"

definition buildApiMaster :: "env \<Rightarrow> config \<Rightarrow> roundSpec list \<Rightarrow> jsError + build" where
  "buildApiMaster env cfg content =
     (case forEachRound env cfg content of
        Inl e \<Rightarrow> Inl e
      | Inr roundRuns \<Rightarrow> Inr (taskComplete cfg (outputTree env cfg content) roundRuns))"

subsection \<open>Notions used in the statements\<close>

text \<open>
  The question references of a list whose file holds an object, in the declared order,
  each with the fields of its file; the errors that loading the list logs; and the
  references whose file is malformed: it holds a truthy value that is not an object,
  on which the build throws.
\<close>

fun loadable :: "env \<Rightarrow> string list \<Rightarrow> (string \<times> jsonObject) list" where
  "loadable env [] = []"
| "loadable env (dir # dirs) =
     (case fst (getQuestionData env dir) of
        JObj d \<Rightarrow> (dir, d) # loadable env dirs
      | _ \<Rightarrow> loadable env dirs)"

definition loadErrors :: "env \<Rightarrow> string list \<Rightarrow> jsError list" where
  "loadErrors env dirs = concat (map (\<lambda>dir. snd (getQuestionData env dir)) dirs)"

definition malformed :: "env \<Rightarrow> string \<Rightarrow> bool" where
  "malformed env dir =
     (case fst (getQuestionData env dir) of
        JObj d \<Rightarrow> False
      | v \<Rightarrow> truthy v)"

text \<open>The example reference of a round when \<^verbatim>\<open>roundData.example\<close> is truthy.\<close>

definition exampleDir :: "roundSpec \<Rightarrow> string list" where
  "exampleDir rd = (case example rd of None \<Rightarrow> [] | Some dir \<Rightarrow> if dir = [] then [] else [dir])"

text \<open>No question file that the content refers to is malformed.\<close>

definition wellFormedRound :: "env \<Rightarrow> roundSpec \<Rightarrow> bool" where
  "wellFormedRound env rd = (\<not> list_ex (malformed env) (questions rd @ exampleDir rd))"

definition wellFormed :: "env \<Rightarrow> roundSpec list \<Rightarrow> bool" where
  "wellFormed env content = list_all (wellFormedRound env) content"

text \<open>
  The arguments of the calls of \<^verbatim>\<open>createQuestionsImages\<close> that a round makes when
  none of its question files is malformed: the numbered questions first, then the
  example.
\<close>

definition questionCall :: "roundRef \<Rightarrow> jsval \<Rightarrow> string \<times> jsonObject \<Rightarrow> string \<times> questionData" where
  "questionCall ref qid l =
     (fst l, \<lparr> author = snd l, questionId = qid, roundData = ref, imgs = None \<rparr>)"

definition numberedCalls :: "env \<Rightarrow> roundSpec \<Rightarrow> nat \<Rightarrow> (string \<times> questionData) list" where
  "numberedCalls env rd i =
     map (\<lambda>(k, l). questionCall \<lparr> title = title rd, roundId = i \<rparr> (Num k) l)
       (enumerate 0 (loadable env (questions rd)))"

definition exampleCalls :: "env \<Rightarrow> roundSpec \<Rightarrow> nat \<Rightarrow> (string \<times> questionData) list" where
  "exampleCalls env rd i =
     map (questionCall \<lparr> title = title rd, roundId = i \<rparr> (Str ''e'')) (loadable env (exampleDir rd))"

definition questionCalls :: "env \<Rightarrow> roundSpec \<Rightarrow> nat \<Rightarrow> (string \<times> questionData) list" where
  "questionCalls env rd i = numberedCalls env rd i @ exampleCalls env rd i"

text \<open>The call of \<^verbatim>\<open>createImageVariants\<close> for one image of a question.\<close>

definition imgPathOf :: "string \<Rightarrow> string \<Rightarrow> string" where
  "imgPathOf dir name = (''./src/questions/'' @ dir) @ ''/'' @ name"

definition roleRun ::
  "env \<Rightarrow> config \<Rightarrow> (thread \<Rightarrow> bool) \<Rightarrow> string \<Rightarrow> questionData \<Rightarrow> string \<Rightarrow> imgVariantsData run" where
  "roleRun env cfg began dir q name =
     createImageVariants env cfg began (imgPathOf dir name) (apiOutputDir cfg @ imageOutputSubDir cfg)
       name (roundId (roundData q)) (questionId q)"

text \<open>
  What \<^verbatim>\<open>processRound\<close> returns for a round, and the loop over the rounds for a
  content, when no question file is malformed.
\<close>

definition roundRun ::
  "env \<Rightarrow> config \<Rightarrow> (thread \<Rightarrow> bool) \<Rightarrow> roundSpec \<Rightarrow> nat \<Rightarrow> roundData run" where
  "roundRun env cfg began rd i =
     roundReady env cfg began rd i
       (length (loadable env (questions rd)), questionCalls env rd i,
        loadErrors env (questions rd) @ loadErrors env (exampleDir rd))"

definition roundRuns :: "env \<Rightarrow> config \<Rightarrow> roundSpec list \<Rightarrow> roundData run list" where
  "roundRuns env cfg content =
     map (\<lambda>(i, rd). roundRun env cfg (resizeBegan env cfg content) rd i) (enumerate 0 content)"

text \<open>
  The value a question's promise is fulfilled with, the value a round's promise is
  fulfilled with, and the index that \<^verbatim>\<open>buildApiMaster\<close> has assembled when the
  promises of all rounds have settled.
\<close>

definition questionValue ::
  "env \<Rightarrow> config \<Rightarrow> (thread \<Rightarrow> bool) \<Rightarrow> string \<times> questionData \<Rightarrow> questionData" where
  "questionValue env cfg began c =
     (snd c)\<lparr> imgs := Some (tempImgsData (zip imgKeys (questionImgRuns env cfg began (fst c) (snd c)))) \<rparr>"

definition roundValue :: "env \<Rightarrow> config \<Rightarrow> (thread \<Rightarrow> bool) \<Rightarrow> nat \<times> roundSpec \<Rightarrow> roundData" where
  "roundValue env cfg began p =
     \<lparr> title = title (snd p), roundId = fst p,
       questionsData = map (Some \<circ> questionValue env cfg began) (numberedCalls env (snd p) (fst p)),
       exampleData = (case exampleCalls env (snd p) (fst p) of [] \<Rightarrow> None
                      | c # rest \<Rightarrow> Some (questionValue env cfg began c)) \<rparr>"

definition roundsSettled :: "env \<Rightarrow> config \<Rightarrow> roundSpec list \<Rightarrow> bool" where
  "roundsSettled env cfg content = list_all (\<lambda>r. settled (future r)) (roundRuns env cfg content)"

definition apiIndex :: "env \<Rightarrow> config \<Rightarrow> roundSpec list \<Rightarrow> apiData" where
  "apiIndex env cfg content =
     \<lparr> rounds = fold (\<lambda>roundData' rs. setIndex rs (roundId roundData') roundData')
                  (fulfilledValues (map future (roundRuns env cfg content))) [] \<rparr>"

text \<open>
  Whether the directory of \<^verbatim>\<open>index.json\<close> exists when the rounds have settled.
\<close>

definition indexDirExists :: "env \<Rightarrow> config \<Rightarrow> roundSpec list \<Rightarrow> bool" where
  "indexDirExists env cfg content =
     dirExists (outputTree env cfg content) (dirname (apiOutputDir cfg @ ''index.json''))"

text \<open>
  The invariant of a thread manager: no more running tasks than its capacity, the tasks
  begun followed by the queue are the tasks submitted (so tasks begin in the order they
  were submitted), and a task waits only while every slot is taken.
\<close>

definition managerInv :: "'t threadManager \<Rightarrow> bool" where
  "managerInv m =
     (length (running m) \<le> capacity m \<and> begun m @ queue m = submitted m \<and>
      (queue m = [] \<or> length (running m) = capacity m))"

text \<open>
  A run of a manager in which the tasks that hold their slot never call
  \<^verbatim>\<open>thread.resolve()\<close>, and what such a run keeps true: the tasks begun that hold
  are still running, and every task begun was let in by \<open>begins\<close>.
\<close>

fun properFor :: "('t \<Rightarrow> bool) \<Rightarrow> 't managerEvent list \<Rightarrow> bool" where
  "properFor holds [] = True"
| "properFor holds (NewThread t # es) = properFor holds es"
| "properFor holds (ThreadResolve t # es) = (\<not> holds t \<and> properFor holds es)"

definition holdersInv :: "('t \<Rightarrow> bool) \<Rightarrow> 't threadManager \<Rightarrow> bool" where
  "holdersInv holds m =
     (managerInv m \<and>
      length (filter holds (begun m)) = length (filter holds (running m)) \<and>
      begins (capacity m) holds (begun m) = begun m)"

subsection \<open>Sample content\<close>

text \<open>
  A content tree with two questions, \<^verbatim>\<open>q0\<close> and \<^verbatim>\<open>q1\<close>; the file of
  \<^verbatim>\<open>q5\<close> holds the number 5, and every other question file fails to load. Image
  \<^verbatim>\<open>a\<close> of \<^verbatim>\<open>q0\<close> exists as jpg and as png. The output directory of the
  defaults is there from an earlier build.
\<close>

definition sampleFiles :: "string \<Rightarrow> jsError + json" where
  "sampleFiles p =
     (case map_of [(''../src/questions/q0/index.json'', JObj [(''answer'', JStr ''x'')]),
                   (''../src/questions/q1/index.json'', JObj [(''answer'', JStr ''y'')]),
                   (''../src/questions/q5/index.json'', JNum 5)] p of
        Some d \<Rightarrow> Inr d
      | None \<Rightarrow> Inl (RequireError p))"

definition sampleImages :: "(string \<times> metadata) list" where
  "sampleImages =
     [(''./src/questions/q0/a.jpg'', \<lparr> height = 100, width = 200 \<rparr>),
      (''./src/questions/q0/a.png'', \<lparr> height = 300, width = 200 \<rparr>),
      (''./src/questions/q0/b.jpg'', \<lparr> height = 100, width = 200 \<rparr>),
      (''./src/questions/q0/mix.png'', \<lparr> height = 100, width = 200 \<rparr>),
      (''./src/questions/q1/a.jpg'', \<lparr> height = 100, width = 200 \<rparr>),
      (''./src/questions/q1/b.jpg'', \<lparr> height = 100, width = 200 \<rparr>),
      (''./src/questions/q1/mix.jpg'', \<lparr> height = 100, width = 200 \<rparr>)]"

definition sampleDirs :: "string list" where
  "sampleDirs = [''./'', ''./dist/'', ''./dist/api/'', ''./dist/api/imgs/'']"

text \<open>
  In \<open>sampleEnv\<close> every resize succeeds and the png identification answers first. The
  other environments differ from it in one field: both resizes of image \<^verbatim>\<open>mix\<close> of
  question 0 fail; the resize of image \<^verbatim>\<open>a\<close> of question 0 at the first width
  fails; no file \<^verbatim>\<open>mix\<close> of \<^verbatim>\<open>q1\<close> is identified; the jpg identification
  answers first.
\<close>

definition sampleEnv :: env where
  "sampleEnv = \<lparr> requireJson = sampleFiles, identify = map_of sampleImages,
      jpgAnswersFirst = (\<lambda>r. False), resizeError = (\<lambda>t. False), resizeRank = (\<lambda>t. 0),
      dirExisted = (\<lambda>d. List.member sampleDirs d) \<rparr>"

definition envMixResizeFails :: env where
  "envMixResizeFails = sampleEnv\<lparr> resizeError := (\<lambda>t. fst (snd t) = Num 0 \<and> fst (snd (snd t)) = ''mix'') \<rparr>"

definition envFirstResizeFails :: env where
  "envFirstResizeFails = sampleEnv\<lparr> resizeError := (\<lambda>t. t = (0, Num 0, ''a'', 0)) \<rparr>"

definition envNoMix :: env where
  "envNoMix = sampleEnv\<lparr> identify := (\<lambda>p. if p = ''./src/questions/q1/mix.jpg'' then None else map_of sampleImages p) \<rparr>"

definition envJpgFirst :: env where
  "envJpgFirst = sampleEnv\<lparr> jpgAnswersFirst := (\<lambda>r. True) \<rparr>"

definition sampleConfig :: config where
  "sampleConfig = defaults\<lparr> imgSizes := [320, 640] \<rparr>"

definition oneSlotConfig :: config where
  "oneSlotConfig = sampleConfig\<lparr> imThreadConcurrency := 1 \<rparr>"

definition configDirA :: config where
  "configDirA = defaults\<lparr> apiOutputDir := ''a/'' \<rparr>"

definition sampleContent :: "roundSpec list" where
  "sampleContent = [\<lparr> title = ''Round 1'', questions = [''q0'', ''q1''], example = None \<rparr>]"

definition contentWithExample :: "roundSpec list" where
  "contentWithExample = [\<lparr> title = ''Round 1'', questions = [''q0''], example = Some ''q1'' \<rparr>]"

definition contentWithBadRef :: "roundSpec list" where
  "contentWithBadRef = [\<lparr> title = ''Round 1'', questions = [''q0'', ''zz'', ''q1''], example = None \<rparr>]"

definition contentOnlyBadRef :: "roundSpec list" where
  "contentOnlyBadRef = [\<lparr> title = ''Round 1'', questions = [''zz''], example = None \<rparr>]"

definition srcImgA :: imgFileData where
  "srcImgA = \<lparr> metadata = \<lparr> height = 100, width = 200 \<rparr>, path = ''./src/questions/q0/a.jpg'',
               imgName = ''a'' \<rparr>"

definition question0 :: "string \<times> questionData" where
  "question0 = (''q0'', \<lparr> author = [(''answer'', JStr ''x'')], questionId = Num 0,
                  roundData = \<lparr> title = ''Round 1'', roundId = 0 \<rparr>, imgs = None \<rparr>)"

definition question1 :: "string \<times> questionData" where
  "question1 = (''q1'', \<lparr> author = [(''answer'', JStr ''y'')], questionId = Num 1,
                  roundData = \<lparr> title = ''Round 1'', roundId = 0 \<rparr>, imgs = None \<rparr>)"

section \<open>Properties\<close>

subsection \<open>Promises and the thread manager\<close>

text \<open>
  Facts about \<^verbatim>\<open>allSettled\<close>, about deferreds resolved in handlers, and about the tasks a manager begins.
\<close>

lemma allSettled_eq: "allSettled ps = (if list_all settled ps then Fulfilled ps else Pending)"
  by (simp add: allSettled_def)

lemma resolvedIn_allSettled:
  "resolvedIn (allSettled ps) f = (if list_all settled ps then Fulfilled (f ps) else Pending)"
  by (simp add: allSettled_def)

lemma fulfilled_iff: "fulfilled p = (\<exists>v. p = Fulfilled v)"
  by (cases p) auto

lemma settled_resolvedIn_fulfilled: "settled (resolvedIn p f) = fulfilled p"
  by (cases p) auto

lemma begins_all: "length (filter holds ts) < c \<Longrightarrow> begins c holds ts = ts"
  by (induction ts arbitrary: c) auto

lemma resizeBegan_all:
  assumes "length (filter (resizeError env) (resizeThreads env cfg content)) < imThreadConcurrency cfg"
    and "t \<in> set (resizeThreads env cfg content)"
  shows "resizeBegan env cfg content t"
proof -
  have "filter (resizeError env) (sort_key (resizeRank env) (resizeThreads env cfg content))
      = sort_key (resizeRank env) (filter (resizeError env) (resizeThreads env cfg content))"
    by (rule filter_sort)
  then have "length (filter (resizeError env) (sort_key (resizeRank env) (resizeThreads env cfg content)))
      < imThreadConcurrency cfg"
    using assms(1) by simp
  then have "begins (imThreadConcurrency cfg) (resizeError env)
      (sort_key (resizeRank env) (resizeThreads env cfg content))
      = sort_key (resizeRank env) (resizeThreads env cfg content)"
    by (rule begins_all)
  then show ?thesis
    using assms(2) by (simp add: resizeBegan_def)
qed

lemma concat_memI: "x \<in> set xs \<Longrightarrow> e \<in> set (f x) \<Longrightarrow> e \<in> set (concat (map f xs))"
  by auto

lemma fulfilledValues_map:
  "\<forall>x \<in> set xs. f x = Fulfilled (g x) \<Longrightarrow> fulfilledValues (map f xs) = map g xs"
  by (induction xs) auto

lemma enumerate_map: "enumerate n (map f xs) = map (\<lambda>p. (fst p, f (snd p))) (enumerate n xs)"
  by (induction xs arbitrary: n) auto

subsection \<open>One image\<close>

text \<open>
  The promise of \<^verbatim>\<open>createImageVariants\<close>: never rejected; fulfilled when a source was identified and every resize began, never settled otherwise.
\<close>

lemma settled_createImageVariant:
  "settled (createImageVariant env cfg began srcImg outputDir sz k r q) = began (r, q, imgName srcImg, k)"
  by (simp add: createImageVariant_def)

lemma identified_cases:
  "identified env cfg imgPath name r q =
     (if imThreadConcurrency cfg = 0 then None
      else if jpgAnswersFirst env (r, q, name) then
        (case identify env (imgPath @ ''.png'') of
           Some md \<Rightarrow> Some \<lparr> metadata = md, path = imgPath @ ''.png'', imgName = name \<rparr>
         | None \<Rightarrow> (case identify env (imgPath @ ''.jpg'') of
              Some md \<Rightarrow> Some \<lparr> metadata = md, path = imgPath @ ''.jpg'', imgName = name \<rparr>
            | None \<Rightarrow> None))
      else
        (case identify env (imgPath @ ''.jpg'') of
           Some md \<Rightarrow> Some \<lparr> metadata = md, path = imgPath @ ''.jpg'', imgName = name \<rparr>
         | None \<Rightarrow> (case identify env (imgPath @ ''.png'') of
              Some md \<Rightarrow> Some \<lparr> metadata = md, path = imgPath @ ''.png'', imgName = name \<rparr>
            | None \<Rightarrow> None)))"
  by (simp add: identified_def identifyOrder_def identifyCallback_def split: option.splits)

lemma identified_imgName: "identified env cfg imgPath name r q = Some src \<Longrightarrow> imgName src = name"
  by (auto simp: identified_cases split: if_splits option.splits)

lemma identified_None_iff:
  "(identified env cfg imgPath name r q = None) =
     (imThreadConcurrency cfg = 0 \<or>
      (identify env (imgPath @ ''.png'') = None \<and> identify env (imgPath @ ''.jpg'') = None))"
  by (auto simp: identified_cases split: if_splits option.splits)

lemma settled_variants:
  "list_all settled (imgVariantPromises env cfg began srcImg outputDir r q)
     = (\<forall>k < length (imgSizes cfg). began (r, q, imgName srcImg, k))"
proof -
  have "list_all settled (imgVariantPromises env cfg began srcImg outputDir r q)
      = (\<forall>p \<in> set (enumerate 0 (imgSizes cfg)). began (r, q, imgName srcImg, fst p))"
    by (simp add: imgVariantPromises_def list_all_iff settled_createImageVariant split_beta)
  also have "\<dots> = (\<forall>k \<in> fst ` set (enumerate 0 (imgSizes cfg)). began (r, q, imgName srcImg, k))"
    by blast
  also have "fst ` set (enumerate 0 (imgSizes cfg)) = {0..<length (imgSizes cfg)}"
    by (simp flip: set_map)
  finally show ?thesis by auto
qed

lemma found_allSettled:
  "allSettled (map (foundImgPromise env cfg imgPath) [''png'', ''jpg'']) =
     (if 0 < imThreadConcurrency cfg
      then Fulfilled (map (foundImgPromise env cfg imgPath) [''png'', ''jpg'']) else Pending)"
  by (auto simp: allSettled_def foundImgPromise_def split: option.splits)

lemma identified_no_capacity: "imThreadConcurrency cfg = 0 \<Longrightarrow> identified env cfg imgPath name r q = None"
  by (simp add: identified_def)

lemma createImageVariants_future:
  "future (createImageVariants env cfg began imgPath distDir name r q) =
     (case identified env cfg imgPath name r q of
        None \<Rightarrow> Pending
      | Some srcImg \<Rightarrow>
          (let variants = imgVariantPromises env cfg began srcImg
                 (distDir @ ''round-'' @ showNat r @ ''/'' @ ''question-'' @ showId q) r q
           in if list_all settled variants
              then Fulfilled \<lparr> aspectRatio = aspectRatioOf (metadata srcImg),
                               srcs = saveSrcs (zip (imgSizes cfg) variants) [] \<rparr>
              else Pending))"
  unfolding createImageVariants_def Let_def found_allSettled
  by (simp add: identified_no_capacity resolvedIn_allSettled split: option.splits)

lemma createImageVariants_logs:
  "logs (createImageVariants env cfg began imgPath distDir name r q) =
     (if 0 < imThreadConcurrency cfg \<and> identified env cfg imgPath name r q = None
      then [NotFound imgPath] else [])"
  unfolding createImageVariants_def Let_def found_allSettled
  by (simp add: identified_no_capacity split: option.splits)

lemma fulfilled_createImageVariants:
  "fulfilled (future (createImageVariants env cfg began imgPath distDir name r q)) =
     (identified env cfg imgPath name r q \<noteq> None \<and>
      (\<forall>k < length (imgSizes cfg). began (r, q, name, k)))"
  by (auto simp: createImageVariants_future settled_variants identified_imgName Let_def
        split: option.splits)

lemma saveSrcs_keys: "fst ` set (saveSrcs ps acc) \<subseteq> fst ` set ps \<union> fst ` set acc"
proof (induction ps acc rule: saveSrcs.induct)
  case (2 sz fileName ps acc)
  have "set (map fst (AList.update sz fileName acc)) = insert sz (set (map fst acc))"
    by (auto simp: update_keys)
  then have "fst ` set (AList.update sz fileName acc) = insert sz (fst ` set acc)"
    by simp
  with 2 show ?case by auto
qed auto

lemma role_value_keys:
  assumes "future (createImageVariants env cfg began imgPath distDir name r q) = Fulfilled v"
  shows "fst ` set (srcs v) \<subseteq> set (imgSizes cfg)"
proof -
  obtain srcImg variants where "srcs v = saveSrcs (zip (imgSizes cfg) variants) []"
    using assms by (auto simp: createImageVariants_future Let_def split: option.splits if_splits)
  moreover have "fst ` set (zip (imgSizes cfg) variants) \<subseteq> set (imgSizes cfg)"
    by (auto dest: set_zip_leftD)
  ultimately show ?thesis
    using saveSrcs_keys [of "zip (imgSizes cfg) variants" "[]"] by auto
qed

subsection \<open>One question\<close>

text \<open>
  The promise of \<^verbatim>\<open>createQuestionsImages\<close> is fulfilled when the promises of its three images are, and never settled otherwise.
\<close>

lemma createQuestionsImages_future:
  "future (createQuestionsImages env cfg began dir q) =
     (if list_all (\<lambda>r. fulfilled (future r)) (questionImgRuns env cfg began dir q)
      then Fulfilled (q\<lparr> imgs := Some (tempImgsData (zip imgKeys (questionImgRuns env cfg began dir q))) \<rparr>)
      else Pending)"
  by (simp add: createQuestionsImages_def Let_def resolvedIn_allSettled list_all_iff
        settled_resolvedIn_fulfilled)

lemma settled_createQuestionsImages:
  "settled (future (createQuestionsImages env cfg began dir q)) =
   fulfilled (future (createQuestionsImages env cfg began dir q))"
  by (simp add: createQuestionsImages_future)

lemma questionImgRuns_eq:
  "questionImgRuns env cfg began dir q = map (roleRun env cfg began dir q) imgKeys"
  by (simp add: questionImgRuns_def roleRun_def imgPathOf_def)

lemma fulfilled_question:
  "fulfilled (future (createQuestionsImages env cfg began dir q)) =
     (\<forall>name \<in> set imgKeys. fulfilled (future (roleRun env cfg began dir q name)))"
  by (simp add: createQuestionsImages_future questionImgRuns_eq list_all_iff)

lemma fulfilled_role:
  "fulfilled (future (roleRun env cfg began dir q name)) =
     (identified env cfg (imgPathOf dir name) name (roundId (roundData q)) (questionId q) \<noteq> None \<and>
      (\<forall>k < length (imgSizes cfg). began (roundId (roundData q), questionId q, name, k)))"
  by (simp add: roleRun_def fulfilled_createImageVariants)

lemma logs_question:
  "logs (createQuestionsImages env cfg began dir q) =
     concat (map (\<lambda>name. logs (roleRun env cfg began dir q name)) imgKeys)"
  by (simp add: createQuestionsImages_def Let_def questionImgRuns_eq comp_def)

lemma question_future_value:
  "fulfilled (future (createQuestionsImages env cfg began dir q)) \<Longrightarrow>
   future (createQuestionsImages env cfg began dir q) = Fulfilled (questionValue env cfg began (dir, q))"
  by (simp add: createQuestionsImages_future questionValue_def split: if_splits)

lemma questionValue_fields:
  "questionId (questionValue env cfg began c) = questionId (snd c)"
  "author (questionValue env cfg began c) = author (snd c)"
  "roundData (questionValue env cfg began c) = roundData (snd c)"
  by (simp_all add: questionValue_def)

lemma tempImgsData_zip:
  "\<forall>name \<in> set names. fulfilled (future (f name)) \<Longrightarrow>
   map fst (tempImgsData (zip names (map f names))) = names \<and>
   (\<forall>d \<in> snd ` set (tempImgsData (zip names (map f names))). \<exists>name \<in> set names. future (f name) = Fulfilled d)"
proof (induction names)
  case Nil
  then show ?case by simp
next
  case (Cons n names)
  then obtain v where "future (f n) = Fulfilled v"
    by (auto simp: fulfilled_iff)
  then show ?case
    using Cons by auto
qed

lemma questionValue_imgs:
  assumes "fulfilled (future (createQuestionsImages env cfg began (fst c) (snd c)))"
  shows "\<exists>m. imgs (questionValue env cfg began c) = Some m \<and> map fst m = imgKeys \<and>
           (\<forall>d \<in> snd ` set m. fst ` set (srcs d) \<subseteq> set (imgSizes cfg))"
proof -
  let ?f = "roleRun env cfg began (fst c) (snd c)"
  let ?m = "tempImgsData (zip imgKeys (map ?f imgKeys))"
  have all: "\<forall>name \<in> set imgKeys. fulfilled (future (?f name))"
    using assms by (simp add: fulfilled_question)
  have m: "imgs (questionValue env cfg began c) = Some ?m"
    by (simp add: questionValue_def questionImgRuns_eq)
  have k: "map fst ?m = imgKeys"
    using tempImgsData_zip [OF all] by (rule conjunct1)
  have ex: "\<forall>d \<in> snd ` set ?m. \<exists>name \<in> set imgKeys. future (?f name) = Fulfilled d"
    using tempImgsData_zip [OF all] by (rule conjunct2)
  have "fst ` set (srcs d) \<subseteq> set (imgSizes cfg)" if "d \<in> snd ` set ?m" for d
  proof -
    from bspec [OF ex that] obtain name where "future (?f name) = Fulfilled d"
      by (rule bexE)
    then show ?thesis
      unfolding roleRun_def by (rule role_value_keys)
  qed
  then have "\<forall>d \<in> snd ` set ?m. fst ` set (srcs d) \<subseteq> set (imgSizes cfg)"
    by (rule ballI)
  then show ?thesis
    using m k by (intro exI [of _ ?m] conjI)
qed

subsection \<open>The questions of a round\<close>

text \<open>
  The loop of \<^verbatim>\<open>processRound\<close> in closed form: it throws when a question file is
  malformed; otherwise the references whose file holds an object are numbered from 0 in
  the declared order, and the example follows.
\<close>

lemma getQuestionData_Inl:
  "requireJson env (''../src/questions/'' @ dir @ ''/index.json'') = Inl e \<Longrightarrow> getQuestionData env dir = (JNull, [e])"
  by (simp add: getQuestionData_def)

lemma getQuestionData_Some:
  "(fst (getQuestionData env dir) = JObj d) = (requireJson env (''../src/questions/'' @ dir @ ''/index.json'') = Inr (JObj d))"
  by (auto simp: getQuestionData_def split: sum.splits)

lemma loadable_Cons: "loadable env (dir # dirs) = loadable env [dir] @ loadable env dirs"
  by (simp split: json.splits)

lemma loadErrors_Cons: "loadErrors env (dir # dirs) = snd (getQuestionData env dir) @ loadErrors env dirs"
  by (simp add: loadErrors_def)

lemma forEachQuestion_eq:
  "forEachQuestion env ref dir isExample (c, calls, errs) =
     (if malformed env dir then Inl (TypeError ''roundId'')
      else Inr (if isExample then c else c + length (loadable env [dir]),
                calls @ map (questionCall ref (if isExample then Str ''e'' else Num c)) (loadable env [dir]),
                errs @ loadErrors env [dir]))"
proof -
  obtain v logged where g: "getQuestionData env dir = (v, logged)"
    by (cases "getQuestionData env dir")
  then show ?thesis
    by (cases v) (simp_all add: forEachQuestion_def malformed_def loadErrors_def questionCall_def)
qed

lemma forEachQuestion_fold:
  "forEachThrowing (\<lambda>dir. forEachQuestion env ref dir False) dirs (c, calls, errs) =
     (if list_ex (malformed env) dirs then Inl (TypeError ''roundId'')
      else Inr (c + length (loadable env dirs),
                calls @ map (\<lambda>(k, l). questionCall ref (Num k) l) (enumerate c (loadable env dirs)),
                errs @ loadErrors env dirs))"
proof (induction dirs arbitrary: c calls errs)
  case Nil
  then show ?case by (simp add: loadErrors_def)
next
  case (Cons dir dirs)
  show ?case
  proof (cases "malformed env dir")
    case True
    then show ?thesis by (simp add: forEachQuestion_eq)
  next
    case False
    obtain v logged where g: "getQuestionData env dir = (v, logged)"
      by (cases "getQuestionData env dir")
    show ?thesis
    proof (cases "\<exists>d. v = JObj d")
      case True
      then obtain d where "v = JObj d" by blast
      with g False show ?thesis
        by (simp add: forEachQuestion_eq Cons.IH loadErrors_def)
    next
      case no: False
      then have "loadable env (dir # dirs) = loadable env dirs" "loadable env [dir] = []"
        using g by (cases v; simp)+
      with g False show ?thesis
        by (simp add: forEachQuestion_eq Cons.IH loadErrors_def)
    qed
  qed
qed

lemma questionCalls_eq:
  "questionCalls env rd i =
      map (\<lambda>(k, l). questionCall \<lparr> title = title rd, roundId = i \<rparr> (Num k) l)
          (enumerate 0 (loadable env (questions rd)))
      @ map (questionCall \<lparr> title = title rd, roundId = i \<rparr> (Str ''e'')) (loadable env (exampleDir rd))"
  by (simp add: questionCalls_def numberedCalls_def exampleCalls_def)

lemma questionLoop_eq:
  "questionLoop env rd i =
     (if wellFormedRound env rd
      then Inr (length (loadable env (questions rd)), questionCalls env rd i,
                loadErrors env (questions rd) @ loadErrors env (exampleDir rd))
      else Inl (TypeError ''roundId''))"
proof (cases "list_ex (malformed env) (questions rd)")
  case True
  then show ?thesis
    by (simp add: questionLoop_def Let_def forEachQuestion_fold wellFormedRound_def)
next
  case False
  show ?thesis
  proof (cases "example rd")
    case None
    with False show ?thesis
      by (simp add: questionLoop_def Let_def forEachQuestion_fold wellFormedRound_def exampleDir_def
            questionCalls_eq loadErrors_def)
  next
    case (Some dir)
    with False show ?thesis
      by (simp add: questionLoop_def Let_def forEachQuestion_fold forEachQuestion_eq wellFormedRound_def
            exampleDir_def questionCalls_eq loadErrors_def)
  qed
qed

lemma questionCalls_split: "questionCalls env rd i = numberedCalls env rd i @ exampleCalls env rd i"
  by (simp add: questionCalls_def)

lemma loadable_mem_iff:
  "((dir, d) \<in> set (loadable env dirs)) = (dir \<in> set dirs \<and> fst (getQuestionData env dir) = JObj d)"
  by (induction dirs) (auto split: json.splits)

lemma call_roundId:
  "(dir, q) \<in> set (questionCalls env rd i) \<Longrightarrow> roundId (roundData q) = i \<and> imgs q = None"
  by (auto simp: questionCalls_eq questionCall_def)

lemma exampleDir_iff: "(dir \<in> set (exampleDir rd)) = (example rd = Some dir \<and> dir \<noteq> [])"
proof (cases "example rd")
  case None
  then show ?thesis by (simp add: exampleDir_def)
next
  case (Some x)
  then show ?thesis by (cases "x = []") (auto simp: exampleDir_def)
qed

lemma call_source:
  assumes "(dir, q) \<in> set (questionCalls env rd i)"
  shows "(dir \<in> set (questions rd) \<or> dir \<in> set (exampleDir rd)) \<and>
         requireJson env (''../src/questions/'' @ dir @ ''/index.json'') = Inr (JObj (author q))"
proof -
  from assms consider
    (numbered) k l where "(k, l) \<in> set (enumerate 0 (loadable env (questions rd)))"
      "(dir, q) = questionCall \<lparr> title = title rd, roundId = i \<rparr> (Num k) l"
  | (ex) l where "l \<in> set (loadable env (exampleDir rd))"
      "(dir, q) = questionCall \<lparr> title = title rd, roundId = i \<rparr> (Str ''e'') l"
    by (auto simp: questionCalls_eq)
  then show ?thesis
  proof cases
    case numbered
    obtain a b where l: "l = (a, b)" by (cases l)
    have "l \<in> set (loadable env (questions rd))"
      using numbered(1) by (auto simp: in_set_enumerate_eq)
    then have "a \<in> set (questions rd) \<and> fst (getQuestionData env a) = JObj b"
      unfolding l loadable_mem_iff .
    then show ?thesis
      using numbered(2) l by (simp add: getQuestionData_Some questionCall_def)
  next
    case ex
    obtain a b where l: "l = (a, b)" by (cases l)
    have "a \<in> set (exampleDir rd) \<and> fst (getQuestionData env a) = JObj b"
      using ex(1) unfolding l loadable_mem_iff .
    then show ?thesis
      using ex(2) l by (simp add: getQuestionData_Some questionCall_def)
  qed
qed

lemma call_loaded:
  assumes "dir \<in> set (questions rd) \<or> dir \<in> set (exampleDir rd)"
    and "requireJson env (''../src/questions/'' @ dir @ ''/index.json'') = Inr (JObj d)"
  shows "\<exists>q. (dir, q) \<in> set (questionCalls env rd i)"
proof -
  from assms(1) show ?thesis
  proof
    assume "dir \<in> set (questions rd)"
    then have "(dir, d) \<in> set (loadable env (questions rd))"
      using assms(2) by (simp add: loadable_mem_iff getQuestionData_Some)
    then obtain k where k: "k < length (loadable env (questions rd))" "loadable env (questions rd) ! k = (dir, d)"
      by (auto simp: in_set_conv_nth)
    then have "(k, (dir, d)) \<in> set (enumerate 0 (loadable env (questions rd)))"
      by (simp add: in_set_enumerate_eq)
    then have "questionCall \<lparr> title = title rd, roundId = i \<rparr> (Num k) (dir, d) \<in> set (questionCalls env rd i)"
      by (force simp: questionCalls_eq)
    then show ?thesis
      by (auto simp: questionCall_def)
  next
    assume "dir \<in> set (exampleDir rd)"
    then have "(dir, d) \<in> set (loadable env (exampleDir rd))"
      using assms(2) by (simp add: loadable_mem_iff getQuestionData_Some)
    then have "questionCall \<lparr> title = title rd, roundId = i \<rparr> (Str ''e'') (dir, d) \<in> set (questionCalls env rd i)"
      by (force simp: questionCalls_eq)
    then show ?thesis
      by (auto simp: questionCall_def)
  qed
qed

lemma numberedCalls_nth:
  "k < length (numberedCalls env rd i) \<Longrightarrow> questionId (snd (numberedCalls env rd i ! k)) = Num k"
  by (simp add: numberedCalls_def questionCall_def nth_enumerate_eq)

lemma length_exampleDir: "length (exampleDir rd) \<le> 1"
  by (simp add: exampleDir_def split: option.splits)

lemma length_loadable: "length (loadable env dirs) \<le> length dirs"
  by (induction dirs) (auto split: json.splits)

lemma length_exampleCalls: "length (exampleCalls env rd i) \<le> 1"
  using length_loadable [of env "exampleDir rd"] length_exampleDir [of rd]
  by (simp add: exampleCalls_def)

lemma exampleCalls_id: "c \<in> set (exampleCalls env rd i) \<Longrightarrow> questionId (snd c) = Str ''e''"
  by (auto simp: exampleCalls_def questionCall_def)

lemma numbered_ids:
  "map (questionId \<circ> questionValue env cfg began) (numberedCalls env rd i) =
     map Num [0..<length (numberedCalls env rd i)]"
  by (rule nth_equalityI) (simp_all add: questionValue_fields numberedCalls_nth)

lemma numbered_authors:
  "map (author \<circ> questionValue env cfg began) (numberedCalls env rd i) =
     map snd (loadable env (questions rd))"
proof -
  have "map (author \<circ> questionValue env cfg began) (numberedCalls env rd i) =
      map (snd \<circ> snd) (enumerate 0 (loadable env (questions rd)))"
    by (simp add: numberedCalls_def questionValue_fields questionCall_def comp_def case_prod_unfold)
  also have "\<dots> = map snd (map snd (enumerate 0 (loadable env (questions rd))))"
    by (simp only: map_map)
  finally show ?thesis
    by (simp only: map_snd_enumerate)
qed

lemma loadable_example:
  "(loadable env (exampleDir rd) \<noteq> []) =
     (\<exists>dir d. example rd = Some dir \<and> dir \<noteq> [] \<and>
        requireJson env (''../src/questions/'' @ dir @ ''/index.json'') = Inr (JObj d))"
proof -
  have "(loadable env (exampleDir rd) \<noteq> []) = (\<exists>dir d. (dir, d) \<in> set (loadable env (exampleDir rd)))"
    by (cases "loadable env (exampleDir rd)") auto
  then show ?thesis
    by (simp add: loadable_mem_iff exampleDir_iff getQuestionData_Some)
qed

lemma loadErrors_mem:
  "dir \<in> set dirs \<Longrightarrow> e \<in> set (snd (getQuestionData env dir)) \<Longrightarrow> e \<in> set (loadErrors env dirs)"
  by (auto simp: loadErrors_def)

subsection \<open>One round\<close>

text \<open>
  The promise of \<^verbatim>\<open>processRound\<close> and the value it is fulfilled with.
\<close>

lemma processRound_eq:
  "processRound env cfg began rd i =
     (if wellFormedRound env rd then Inr (roundRun env cfg began rd i) else Inl (TypeError ''roundId''))"
  by (simp add: processRound_def questionLoop_eq roundRun_def)

lemma roundRun_future:
  "future (roundRun env cfg began rd i) =
     (if (\<forall>(dir, q) \<in> set (questionCalls env rd i). fulfilled (future (createQuestionsImages env cfg began dir q)))
      then Fulfilled (fold saveQuestion
             (fulfilledValues (map (\<lambda>(dir, q). future (createQuestionsImages env cfg began dir q))
                (questionCalls env rd i)))
             \<lparr> title = title rd, roundId = i, questionsData = [], exampleData = None \<rparr>)
      else Pending)"
  by (auto simp: roundRun_def roundReady_def Let_def resolvedIn_allSettled list_all_iff comp_def
        case_prod_unfold settled_createQuestionsImages)

lemma settled_roundRun:
  "settled (future (roundRun env cfg began rd i)) = fulfilled (future (roundRun env cfg began rd i))"
  by (simp add: roundRun_future)

lemma fulfilled_roundRun:
  "fulfilled (future (roundRun env cfg began rd i)) =
     (\<forall>(dir, q) \<in> set (questionCalls env rd i).
         fulfilled (future (createQuestionsImages env cfg began dir q)))"
  by (simp add: roundRun_future)

lemma logs_round:
  "logs (roundRun env cfg began rd i) =
     (loadErrors env (questions rd) @ loadErrors env (exampleDir rd)) @
     concat (map (\<lambda>c. logs (createQuestionsImages env cfg began (fst c) (snd c))) (questionCalls env rd i))"
  by (simp add: roundRun_def roundReady_def Let_def comp_def case_prod_unfold)

lemma fold_saveQuestion_numbered:
  "length (questionsData rd) = n \<Longrightarrow> \<forall>k < length qs. questionId (qs ! k) = Num (n + k) \<Longrightarrow>
   fold saveQuestion qs rd = rd\<lparr> questionsData := questionsData rd @ map Some qs \<rparr>"
proof (induction qs arbitrary: rd n)
  case Nil
  then show ?case by simp
next
  case (Cons q qs)
  have q: "questionId q = Num n"
    using Cons.prems(2) by force
  have step: "saveQuestion q rd = rd\<lparr> questionsData := questionsData rd @ [Some q] \<rparr>"
    using q Cons.prems(1) by (simp add: saveQuestion_def setIndex_def)
  have "\<forall>k < length qs. questionId (qs ! k) = Num (Suc n + k)"
    using Cons.prems(2) by force
  then have "fold saveQuestion qs (saveQuestion q rd) =
      (saveQuestion q rd)\<lparr> questionsData := questionsData (saveQuestion q rd) @ map Some qs \<rparr>"
    by (intro Cons.IH) (simp add: step Cons.prems(1))
  then show ?case
    by (simp add: step)
qed

lemma fold_saveQuestion_example:
  "\<forall>q \<in> set qs. questionId q = Str ''e'' \<Longrightarrow> length qs \<le> 1 \<Longrightarrow>
   fold saveQuestion qs rd = rd\<lparr> exampleData := (case qs of [] \<Rightarrow> exampleData rd | q # rest \<Rightarrow> Some q) \<rparr>"
  by (cases qs) (auto simp: saveQuestion_def)

lemma roundRun_value:
  assumes "fulfilled (future (roundRun env cfg began rd i))"
  shows "future (roundRun env cfg began rd i) =
     Fulfilled \<lparr> title = title rd, roundId = i,
       questionsData = map (Some \<circ> questionValue env cfg began) (numberedCalls env rd i),
       exampleData = (case exampleCalls env rd i of [] \<Rightarrow> None
                      | c # rest \<Rightarrow> Some (questionValue env cfg began c)) \<rparr>"
proof -
  let ?calls = "questionCalls env rd i"
  let ?init = "\<lparr> title = title rd, roundId = i, questionsData = [], exampleData = None \<rparr>"
  have all: "\<forall>c \<in> set ?calls. fulfilled (future (createQuestionsImages env cfg began (fst c) (snd c)))"
    using assms by (auto simp: fulfilled_roundRun)
  then have "\<forall>c \<in> set ?calls. (\<lambda>c. future (createQuestionsImages env cfg began (fst c) (snd c))) c
      = Fulfilled (questionValue env cfg began c)"
    by (auto simp: question_future_value)
  then have vals: "fulfilledValues (map (\<lambda>c. future (createQuestionsImages env cfg began (fst c) (snd c))) ?calls)
      = map (questionValue env cfg began) ?calls"
    by (rule fulfilledValues_map)
  have fut: "future (roundRun env cfg began rd i) =
      Fulfilled (fold saveQuestion (map (questionValue env cfg began) ?calls) ?init)"
    using all by (simp add: roundRun_future vals case_prod_unfold)
  let ?nv = "map (questionValue env cfg began) (numberedCalls env rd i)"
  let ?ev = "map (questionValue env cfg began) (exampleCalls env rd i)"
  have n: "fold saveQuestion ?nv ?init = ?init\<lparr> questionsData := questionsData ?init @ map Some ?nv \<rparr>"
    by (rule fold_saveQuestion_numbered [where n = 0])
       (simp_all add: questionValue_fields numberedCalls_nth)
  have e: "fold saveQuestion ?ev rd' =
      rd'\<lparr> exampleData := (case ?ev of [] \<Rightarrow> exampleData rd' | q # rest \<Rightarrow> Some q) \<rparr>" for rd'
    using length_exampleCalls [of env rd i]
    by (intro fold_saveQuestion_example) (auto simp: questionValue_fields exampleCalls_id)
  have "fold saveQuestion (map (questionValue env cfg began) ?calls) ?init =
      \<lparr> title = title rd, roundId = i, questionsData = map Some ?nv,
        exampleData = (case exampleCalls env rd i of [] \<Rightarrow> None
                       | c # rest \<Rightarrow> Some (questionValue env cfg began c)) \<rparr>"
  proof -
    have "fold saveQuestion (map (questionValue env cfg began) ?calls) ?init =
        fold saveQuestion ?ev (fold saveQuestion ?nv ?init)"
      by (simp add: questionCalls_split)
    also have "\<dots> = (fold saveQuestion ?nv ?init)
        \<lparr> exampleData := (case ?ev of [] \<Rightarrow> exampleData (fold saveQuestion ?nv ?init)
                            | q # rest \<Rightarrow> Some q) \<rparr>"
      by (rule e)
    finally show ?thesis
      unfolding n by (cases "exampleCalls env rd i") simp_all
  qed
  then show ?thesis
    using fut by simp
qed

lemma roundRun_roundValue:
  "fulfilled (future (roundRun env cfg began rd i)) \<Longrightarrow>
   future (roundRun env cfg began rd i) = Fulfilled (roundValue env cfg began (i, rd))"
  by (simp add: roundRun_value roundValue_def)

subsection \<open>The output directory\<close>

text \<open>
  The directory of \<^verbatim>\<open>index.json\<close> is on the way to the directory of every variant:
  it exists as soon as one call of \<^verbatim>\<open>createImageVariant\<close> was made.
\<close>

lemma dirname_append: "CHR ''/'' \<notin> set s \<Longrightarrow> dirname (p @ s) = dirname p"
proof -
  assume a: "CHR ''/'' \<notin> set s"
  have "dropWhile (\<lambda>c. c \<noteq> CHR ''/'') (rev s @ rev p) = dropWhile (\<lambda>c. c \<noteq> CHR ''/'') (rev p)"
    using a by (intro dropWhile_append2) auto
  then show ?thesis
    by (simp add: dirname_def)
qed

lemma prefix_dirname: "prefix (dirname p) p"
proof -
  have "suffix (dropWhile (\<lambda>c. c \<noteq> CHR ''/'') (rev p)) (rev p)"
    by (rule suffix_dropWhile)
  then have "prefix (rev (dropWhile (\<lambda>c. c \<noteq> CHR ''/'') (rev p))) (rev (rev p))"
    by (simp only: suffix_to_prefix)
  then show ?thesis
    by (simp add: dirname_def)
qed

lemma last_dirname: "dirname p \<noteq> [] \<Longrightarrow> last (dirname p) = CHR ''/''"
proof -
  assume "dirname p \<noteq> []"
  then have n: "dropWhile (\<lambda>c. c \<noteq> CHR ''/'') (rev p) \<noteq> []"
    by (simp add: dirname_def)
  then have "\<not> (hd (dropWhile (\<lambda>c. c \<noteq> CHR ''/'') (rev p)) \<noteq> CHR ''/'')"
    by (rule hd_dropWhile)
  then show ?thesis
    using n by (simp add: dirname_def last_rev)
qed

lemma fold_mkdirParent:
  "fold mkdirParent ps tree d =
     (tree d \<or> (d \<noteq> [] \<and> last d = CHR ''/'' \<and> list_ex (\<lambda>p. prefix d (asFolder p)) ps))"
  by (induction ps arbitrary: tree) (auto simp: mkdirParent_def)

lemma prefix_asFolder: "prefix p (asFolder p)"
  by (simp add: asFolder_def)

lemma prefix_variantDir: "prefix (apiOutputDir cfg) (variantDir cfg t)"
  by (simp add: variantDir_def case_prod_unfold)

lemma made_indexDir:
  assumes "resizeThreads env cfg content \<noteq> []"
  shows "indexDirExists env cfg content"
proof (cases "dirname (apiOutputDir cfg @ ''index.json'') = []")
  case True
  then show ?thesis
    by (simp add: indexDirExists_def dirExists_def)
next
  case False
  let ?d = "dirname (apiOutputDir cfg @ ''index.json'')"
  obtain t where t: "t \<in> set (resizeThreads env cfg content)"
    using assms by (cases "resizeThreads env cfg content") auto
  have "?d = dirname (apiOutputDir cfg)"
    by (rule dirname_append) simp
  then have "prefix ?d (apiOutputDir cfg)"
    by (simp only: prefix_dirname)
  also have "prefix (apiOutputDir cfg) (variantDir cfg t)"
    by (rule prefix_variantDir)
  also have "prefix (variantDir cfg t) (asFolder (variantDir cfg t))"
    by (rule prefix_asFolder)
  finally have "list_ex (\<lambda>p. prefix ?d (asFolder p)) (map (variantDir cfg) (resizeThreads env cfg content))"
    using t by (auto simp: list_ex_iff)
  then have "outputTree env cfg content ?d"
    using False last_dirname [OF False] by (simp add: outputTree_def fold_mkdirParent)
  then show ?thesis
    by (simp add: indexDirExists_def dirExists_def)
qed

subsection \<open>The build\<close>

text \<open>
  What \<^verbatim>\<open>buildApiMaster\<close> leaves, in terms of the rounds.
\<close>

lemma forEachThrowing_collect:
  assumes "\<And>x. x \<in> set xs \<Longrightarrow> g x = (if ok x then Inr (h x) else Inl err)"
  shows "forEachThrowing (\<lambda>x acc. case g x of Inl e \<Rightarrow> Inl e | Inr r \<Rightarrow> Inr (acc @ [r])) xs acc =
     (if list_all ok xs then Inr (acc @ map h xs) else Inl err)"
  using assms
proof (induction xs arbitrary: acc)
  case Nil
  then show ?case by simp
next
  case (Cons x xs)
  have x: "g x = (if ok x then Inr (h x) else Inl err)"
    by (rule Cons.prems) simp
  have "forEachThrowing (\<lambda>x acc. case g x of Inl e \<Rightarrow> Inl e | Inr r \<Rightarrow> Inr (acc @ [r])) xs acc' =
     (if list_all ok xs then Inr (acc' @ map h xs) else Inl err)" for acc'
    by (rule Cons.IH) (simp add: Cons.prems)
  then show ?case
    by (simp add: x)
qed

lemma wellFormed_enumerate:
  "list_all (\<lambda>p. wellFormedRound env (snd p)) (enumerate n content) = wellFormed env content"
proof -
  have "(\<forall>p \<in> set (enumerate n content). wellFormedRound env (snd p)) =
      (\<forall>x \<in> snd ` set (enumerate n content). wellFormedRound env x)"
    by blast
  also have "snd ` set (enumerate n content) = set content"
    by (simp flip: set_map)
  finally show ?thesis
    by (simp add: wellFormed_def list_all_iff)
qed

lemma forEachRound_eq:
  "forEachRound env cfg content =
     (if wellFormed env content then Inr (roundRuns env cfg content) else Inl (TypeError ''roundId''))"
proof -
  let ?g = "\<lambda>p. processRound env cfg (resizeBegan env cfg content) (snd p) (fst p)"
  have "forEachRound env cfg content =
      forEachThrowing (\<lambda>p acc. case ?g p of Inl e \<Rightarrow> Inl e | Inr r \<Rightarrow> Inr (acc @ [r]))
        (enumerate 0 content) []"
    by (simp add: forEachRound_def case_prod_unfold)
  also have "\<dots> =
      (if list_all (\<lambda>p. wellFormedRound env (snd p)) (enumerate 0 content)
       then Inr ([] @ map (\<lambda>p. roundRun env cfg (resizeBegan env cfg content) (snd p) (fst p))
                         (enumerate 0 content))
       else Inl (TypeError ''roundId''))"
    by (rule forEachThrowing_collect) (simp add: processRound_eq)
  finally show ?thesis
    by (simp add: wellFormed_enumerate roundRuns_def case_prod_unfold)
qed

lemma taskComplete_eq:
  "taskComplete cfg tree runs =
     \<lparr> future = (if list_all (\<lambda>r. settled (future r)) runs \<and>
                     dirExists tree (dirname (apiOutputDir cfg @ ''index.json''))
                  then Fulfilled () else Pending),
       logs = concat (map logs runs),
       written = (if list_all (\<lambda>r. settled (future r)) runs \<and>
                     dirExists tree (dirname (apiOutputDir cfg @ ''index.json''))
                  then [(apiOutputDir cfg @ ''index.json'',
                         \<lparr> rounds = fold (\<lambda>roundData' rs. setIndex rs (roundId roundData') roundData')
                                      (fulfilledValues (map future runs)) [] \<rparr>)]
                  else []),
       success = (list_all (\<lambda>r. settled (future r)) runs \<and>
                  dirExists tree (dirname (apiOutputDir cfg @ ''index.json''))) \<rparr>"
  by (simp add: taskComplete_def Let_def allSettled_eq saveJsonApi_def list_all_iff)

lemma buildApiMaster_eq:
  "wellFormed env content \<Longrightarrow>
   buildApiMaster env cfg content =
     Inr \<lparr> future = (if roundsSettled env cfg content \<and> indexDirExists env cfg content
                      then Fulfilled () else Pending),
           logs = concat (map logs (roundRuns env cfg content)),
           written = (if roundsSettled env cfg content \<and> indexDirExists env cfg content
                      then [(apiOutputDir cfg @ ''index.json'', apiIndex env cfg content)] else []),
           success = (roundsSettled env cfg content \<and> indexDirExists env cfg content) \<rparr>"
  by (simp add: buildApiMaster_def forEachRound_eq taskComplete_eq roundsSettled_def
        indexDirExists_def apiIndex_def)

lemma buildApiMaster_throws:
  "\<not> wellFormed env content \<Longrightarrow> buildApiMaster env cfg content = Inl (TypeError ''roundId'')"
  by (simp add: buildApiMaster_def forEachRound_eq)

lemma buildApiMaster_Inr: "buildApiMaster env cfg content = Inr b \<Longrightarrow> wellFormed env content"
  by (rule ccontr) (simp add: buildApiMaster_throws)

lemma build_fields:
  assumes "buildApiMaster env cfg content = Inr b"
  shows "future b = (if roundsSettled env cfg content \<and> indexDirExists env cfg content
                     then Fulfilled () else Pending)"
    and "logs b = concat (map logs (roundRuns env cfg content))"
    and "written b = (if roundsSettled env cfg content \<and> indexDirExists env cfg content
                      then [(apiOutputDir cfg @ ''index.json'', apiIndex env cfg content)] else [])"
    and "success b = (roundsSettled env cfg content \<and> indexDirExists env cfg content)"
  using assms buildApiMaster_eq [OF buildApiMaster_Inr [OF assms], of cfg] by auto

lemma roundsSettled_iff:
  "roundsSettled env cfg content =
     (\<forall>(i, rd) \<in> set (enumerate 0 content).
        fulfilled (future (roundRun env cfg (resizeBegan env cfg content) rd i)))"
  by (auto simp: roundsSettled_def roundRuns_def list_all_iff settled_roundRun)

lemma roundsSettled_roles:
  "roundsSettled env cfg content =
     (\<forall>(i, rd) \<in> set (enumerate 0 content). \<forall>(dir, q) \<in> set (questionCalls env rd i).
        \<forall>name \<in> set imgKeys.
          fulfilled (future (roleRun env cfg (resizeBegan env cfg content) dir q name)))"
  by (simp add: roundsSettled_iff fulfilled_roundRun fulfilled_question)

lemma roundsSettledD:
  "roundsSettled env cfg content \<Longrightarrow> (i, rd) \<in> set (enumerate 0 content) \<Longrightarrow>
   (dir, q) \<in> set (questionCalls env rd i) \<Longrightarrow> name \<in> set imgKeys \<Longrightarrow>
   fulfilled (future (roleRun env cfg (resizeBegan env cfg content) dir q name))"
  unfolding roundsSettled_roles by blast

lemma roundsSettledI:
  "(\<And>i rd dir q name. (i, rd) \<in> set (enumerate 0 content) \<Longrightarrow>
      (dir, q) \<in> set (questionCalls env rd i) \<Longrightarrow> name \<in> set imgKeys \<Longrightarrow>
      fulfilled (future (roleRun env cfg (resizeBegan env cfg content) dir q name))) \<Longrightarrow>
   roundsSettled env cfg content"
  unfolding roundsSettled_roles by blast

lemma logs_rounds:
  "concat (map logs (roundRuns env cfg content)) =
     concat (map (\<lambda>p. logs (roundRun env cfg (resizeBegan env cfg content) (snd p) (fst p)))
       (enumerate 0 content))"
  by (simp add: roundRuns_def comp_def case_prod_unfold)

lemma logs_role_mem:
  assumes "(i, rd) \<in> set (enumerate 0 content)" "(dir, q) \<in> set (questionCalls env rd i)"
    "name \<in> set imgKeys" "e \<in> set (logs (roleRun env cfg (resizeBegan env cfg content) dir q name))"
  shows "e \<in> set (concat (map logs (roundRuns env cfg content)))"
proof -
  have "e \<in> set (logs (createQuestionsImages env cfg (resizeBegan env cfg content) dir q))"
    unfolding logs_question using assms(3,4) by (rule concat_memI)
  then have "e \<in> set (logs (createQuestionsImages env cfg (resizeBegan env cfg content)
      (fst (dir, q)) (snd (dir, q))))"
    by simp
  then have "e \<in> set (concat (map (\<lambda>c. logs (createQuestionsImages env cfg (resizeBegan env cfg content) (fst c) (snd c)))
      (questionCalls env rd i)))"
    using assms(2) by (rule concat_memI [rotated])
  then have "e \<in> set (logs (roundRun env cfg (resizeBegan env cfg content) (snd (i, rd)) (fst (i, rd))))"
    by (simp add: logs_round)
  then show ?thesis
    unfolding logs_rounds using assms(1) by (rule concat_memI [rotated])
qed

lemma logs_load_mem:
  assumes "rd \<in> set content" "dir \<in> set (questions rd) \<or> dir \<in> set (exampleDir rd)"
    "e \<in> set (snd (getQuestionData env dir))"
  shows "e \<in> set (concat (map logs (roundRuns env cfg content)))"
proof -
  obtain i where "i < length content" "content ! i = rd"
    using assms(1) by (auto simp: in_set_conv_nth)
  then have i: "(i, rd) \<in> set (enumerate 0 content)"
    by (simp add: in_set_enumerate_eq)
  have "e \<in> set (loadErrors env (questions rd) @ loadErrors env (exampleDir rd))"
    using assms(2,3) by (auto intro: loadErrors_mem)
  then have "e \<in> set (logs (roundRun env cfg (resizeBegan env cfg content) (snd (i, rd)) (fst (i, rd))))"
    unfolding logs_round by auto
  then show ?thesis
    unfolding logs_rounds using i by (rule concat_memI [rotated])
qed

lemma roleThreads_mem:
  "identified env cfg imgPath name r q \<noteq> None \<Longrightarrow> k < length (imgSizes cfg) \<Longrightarrow>
   (r, q, name, k) \<in> set (roleThreads env cfg imgPath name r q)"
  by (auto simp: roleThreads_def identified_imgName split: option.splits)

lemma roundThreads_eq:
  "wellFormedRound env rd \<Longrightarrow>
   roundThreads env cfg rd i = concat (map (\<lambda>(dir, q). questionThreads env cfg dir q) (questionCalls env rd i))"
  by (simp add: roundThreads_def questionLoop_eq)

lemma wellFormed_round:
  "wellFormed env content \<Longrightarrow> (i, rd) \<in> set (enumerate n content) \<Longrightarrow> wellFormedRound env rd"
  by (auto simp: wellFormed_def list_all_iff in_set_enumerate_eq)

lemma resizeThreads_mem:
  assumes "wellFormed env content"
    "(i, rd) \<in> set (enumerate 0 content)" "(dir, q) \<in> set (questionCalls env rd i)"
    "name \<in> set imgKeys" "identified env cfg (imgPathOf dir name) name i (questionId q) \<noteq> None"
    "k < length (imgSizes cfg)"
  shows "(i, questionId q, name, k) \<in> set (resizeThreads env cfg content)"
proof -
  have r: "roundId (roundData q) = i" using assms(3) by (simp add: call_roundId)
  have wf: "wellFormedRound env rd"
    using assms(1,2) by (rule wellFormed_round)
  have "(i, questionId q, name, k) \<in> set (roleThreads env cfg (imgPathOf dir name) name i (questionId q))"
    using assms(5,6) by (rule roleThreads_mem)
  then have "(i, questionId q, name, k) \<in> set (questionThreads env cfg dir q)"
    using assms(4) r by (auto simp: questionThreads_def imgPathOf_def)
  then have "(i, questionId q, name, k) \<in> set (roundThreads env cfg rd i)"
    using assms(3) by (auto simp: roundThreads_eq [OF wf])
  then show ?thesis
    using assms(2) by (auto simp: resizeThreads_def)
qed

lemma fold_setIndex:
  "\<forall>k < length vs. f (vs ! k) = length acc + k \<Longrightarrow>
   fold (\<lambda>v rs. setIndex rs (f v) v) vs acc = acc @ map Some vs"
proof (induction vs arbitrary: acc)
  case Nil
  then show ?case by simp
next
  case (Cons v vs)
  have v: "f v = length acc"
    using Cons.prems by force
  have "\<forall>k < length vs. f (vs ! k) = length (acc @ [Some v]) + k"
    using Cons.prems by force
  then have "fold (\<lambda>v rs. setIndex rs (f v) v) vs (acc @ [Some v]) = (acc @ [Some v]) @ map Some vs"
    by (rule Cons.IH)
  then show ?case
    by (simp add: v setIndex_def)
qed

lemma roundValues:
  assumes "roundsSettled env cfg content"
  shows "fulfilledValues (map future (roundRuns env cfg content)) =
         map (roundValue env cfg (resizeBegan env cfg content)) (enumerate 0 content)"
proof -
  have "\<forall>p \<in> set (enumerate 0 content).
      future (roundRun env cfg (resizeBegan env cfg content) (snd p) (fst p)) =
      Fulfilled (roundValue env cfg (resizeBegan env cfg content) p)"
    using assms by (auto simp: roundsSettled_iff roundRun_roundValue)
  then have "fulfilledValues (map (\<lambda>p. future (roundRun env cfg (resizeBegan env cfg content) (snd p) (fst p)))
      (enumerate 0 content)) = map (roundValue env cfg (resizeBegan env cfg content)) (enumerate 0 content)"
    by (rule fulfilledValues_map)
  then show ?thesis
    by (simp add: roundRuns_def comp_def case_prod_unfold)
qed

lemma apiIndex_value:
  assumes "roundsSettled env cfg content"
  shows "apiIndex env cfg content =
         \<lparr> rounds = map (Some \<circ> roundValue env cfg (resizeBegan env cfg content)) (enumerate 0 content) \<rparr>"
proof -
  let ?vs = "map (roundValue env cfg (resizeBegan env cfg content)) (enumerate 0 content)"
  have "\<forall>k < length ?vs. roundId (?vs ! k) = length ([] :: roundData option list) + k"
    by (simp add: roundValue_def nth_enumerate_eq)
  then have "fold (\<lambda>v rs. setIndex rs (roundId v) v) ?vs [] = [] @ map Some ?vs"
    by (rule fold_setIndex)
  then show ?thesis
    by (simp add: apiIndex_def roundValues [OF assms])
qed

lemma written_cases:
  assumes "buildApiMaster env cfg content = Inr b" "written b = [(file, data)]"
  shows "roundsSettled env cfg content \<and>
         data = \<lparr> rounds = map (Some \<circ> roundValue env cfg (resizeBegan env cfg content)) (enumerate 0 content) \<rparr>"
proof -
  have s: "roundsSettled env cfg content"
    using assms(2) unfolding build_fields(3) [OF assms(1)] by (simp split: if_splits)
  then show ?thesis
    using assms(2) apiIndex_value [OF s] unfolding build_fields(3) [OF assms(1)]
    by (simp split: if_splits)
qed

lemma completes:
  assumes "wellFormed env content" "roundsSettled env cfg content" "resizeThreads env cfg content \<noteq> []"
  shows "buildApiMaster env cfg content =
     Inr \<lparr> future = Fulfilled (), logs = concat (map logs (roundRuns env cfg content)),
           written = [(apiOutputDir cfg @ ''index.json'',
             \<lparr> rounds = map (Some \<circ> roundValue env cfg (resizeBegan env cfg content)) (enumerate 0 content) \<rparr>)],
           success = True \<rparr>"
  using assms(2) made_indexDir [OF assms(3)]
  by (simp add: buildApiMaster_eq [OF assms(1)] apiIndex_value)

lemma never_completes:
  assumes "wellFormed env content" "\<not> roundsSettled env cfg content"
  shows "buildApiMaster env cfg content =
     Inr \<lparr> future = Pending, logs = concat (map logs (roundRuns env cfg content)),
           written = [], success = False \<rparr>"
  using assms(2) by (simp add: buildApiMaster_eq [OF assms(1)])

lemma unbegun_blocks:
  assumes "(i, rd) \<in> set (enumerate 0 content)" "(dir, q) \<in> set (questionCalls env rd i)"
    "name \<in> set imgKeys" "k < length (imgSizes cfg)"
    "\<not> resizeBegan env cfg content (i, questionId q, name, k)"
  shows "\<not> roundsSettled env cfg content"
proof -
  have "roundId (roundData q) = i"
    using assms(2) by (simp add: call_roundId)
  then have "\<not> fulfilled (future (roleRun env cfg (resizeBegan env cfg content) dir q name))"
    using assms(4,5) by (auto simp: fulfilled_role)
  then show ?thesis
    using roundsSettledD [OF _ assms(1-3)] by blast
qed

subsection \<open>When the build completes and when it does not\<close>

text \<open>
  An image that is identified in neither format keeps the build from completing.
\<close>

lemma missing_source_call:
  assumes "i < length content"
    and "dir \<in> set (questions (content ! i)) \<or> (example (content ! i) = Some dir \<and> dir \<noteq> [])"
    and "requireJson env (''../src/questions/'' @ dir @ ''/index.json'') = Inr (JObj d)"
    and "identify env (''./src/questions/'' @ dir @ ''/'' @ name @ ''.png'') = None"
    and "identify env (''./src/questions/'' @ dir @ ''/'' @ name @ ''.jpg'') = None"
  shows "\<exists>q. (dir, q) \<in> set (questionCalls env (content ! i) i) \<and>
           identified env cfg (imgPathOf dir name) name (roundId (roundData q)) (questionId q) = None"
proof -
  have "dir \<in> set (questions (content ! i)) \<or> dir \<in> set (exampleDir (content ! i))"
    using assms(2) by (simp add: exampleDir_iff)
  then obtain q where q: "(dir, q) \<in> set (questionCalls env (content ! i) i)"
    using call_loaded [OF _ assms(3)] by blast
  have "identified env cfg (imgPathOf dir name) name (roundId (roundData q)) (questionId q) = None"
    using assms(4,5) by (simp add: identified_None_iff imgPathOf_def)
  with q show ?thesis by blast
qed

lemma missing_source_blocks:
  assumes "i < length content"
    and "dir \<in> set (questions (content ! i)) \<or> (example (content ! i) = Some dir \<and> dir \<noteq> [])"
    and "requireJson env (''../src/questions/'' @ dir @ ''/index.json'') = Inr (JObj d)"
    and "name \<in> set imgKeys"
    and "identify env (''./src/questions/'' @ dir @ ''/'' @ name @ ''.png'') = None"
    and "identify env (''./src/questions/'' @ dir @ ''/'' @ name @ ''.jpg'') = None"
  shows "\<not> roundsSettled env cfg content"
proof -
  have mem: "(i, content ! i) \<in> set (enumerate 0 content)"
    using assms(1) by (simp add: in_set_enumerate_eq)
  from missing_source_call [OF assms(1,2,3,5,6)] obtain q
    where q: "(dir, q) \<in> set (questionCalls env (content ! i) i)"
      and none: "identified env cfg (imgPathOf dir name) name (roundId (roundData q)) (questionId q) = None"
    by blast
  from none have "\<not> fulfilled (future (roleRun env cfg (resizeBegan env cfg content) dir q name))"
    by (simp add: fulfilled_role)
  then show ?thesis
    using roundsSettledD [OF _ mem q assms(4)] by blast
qed

text \<open>
  When fewer resizes fail than the resize manager has slots, the promise of every
  image that is identified is fulfilled; when every image of every loaded question is
  identified, every round settles.
\<close>

lemma identified_role_fulfilled:
  assumes wf: "wellFormed env content"
    and few: "length (filter (resizeError env) (resizeThreads env cfg content)) < imThreadConcurrency cfg"
    and mem: "(i, rd) \<in> set (enumerate 0 content)" and q: "(dir, q) \<in> set (questionCalls env rd i)"
    and name: "name \<in> set imgKeys"
    and idf: "identified env cfg (imgPathOf dir name) name i (questionId q) \<noteq> None"
  shows "fulfilled (future (roleRun env cfg (resizeBegan env cfg content) dir q name))"
proof -
  have r: "roundId (roundData q) = i"
    using q by (simp add: call_roundId)
  have "resizeBegan env cfg content (i, questionId q, name, k)" if "k < length (imgSizes cfg)" for k
    using resizeBegan_all [OF few resizeThreads_mem [OF wf mem q name idf that]] .
  then show ?thesis
    using idf r by (simp add: fulfilled_role)
qed

lemma all_roles_fulfilled:
  assumes wf: "wellFormed env content"
    and ident: "\<And>rd dir d name. rd \<in> set content \<Longrightarrow>
        dir \<in> set (questions rd) \<or> example rd = Some dir \<Longrightarrow>
        requireJson env (''../src/questions/'' @ dir @ ''/index.json'') = Inr (JObj d) \<Longrightarrow>
        name \<in> set imgKeys \<Longrightarrow>
        identify env (''./src/questions/'' @ dir @ ''/'' @ name @ ''.png'') \<noteq> None \<or>
        identify env (''./src/questions/'' @ dir @ ''/'' @ name @ ''.jpg'') \<noteq> None"
    and few: "length (filter (resizeError env) (resizeThreads env cfg content)) < imThreadConcurrency cfg"
    and mem: "(i, rd) \<in> set (enumerate 0 content)" and q: "(dir, q) \<in> set (questionCalls env rd i)"
    and name: "name \<in> set imgKeys"
  shows "fulfilled (future (roleRun env cfg (resizeBegan env cfg content) dir q name))"
proof -
  have rd: "rd \<in> set content"
    using mem by (auto simp: in_set_enumerate_eq)
  have d: "requireJson env (''../src/questions/'' @ dir @ ''/index.json'') = Inr (JObj (author q))"
    and dir: "dir \<in> set (questions rd) \<or> dir \<in> set (exampleDir rd)"
    using call_source [OF q] by blast+
  have "dir \<in> set (questions rd) \<or> example rd = Some dir"
    using dir by (auto simp: exampleDir_iff)
  from ident [OF rd this d name]
  have idf: "identified env cfg (imgPathOf dir name) name i (questionId q) \<noteq> None"
    using few by (auto simp: identified_None_iff imgPathOf_def)
  show ?thesis
    by (rule identified_role_fulfilled [OF wf few mem q name idf])
qed

lemma rounds_settle:
  assumes "wellFormed env content"
    and "\<And>rd dir d name. rd \<in> set content \<Longrightarrow>
        dir \<in> set (questions rd) \<or> example rd = Some dir \<Longrightarrow>
        requireJson env (''../src/questions/'' @ dir @ ''/index.json'') = Inr (JObj d) \<Longrightarrow>
        name \<in> set imgKeys \<Longrightarrow>
        identify env (''./src/questions/'' @ dir @ ''/'' @ name @ ''.png'') \<noteq> None \<or>
        identify env (''./src/questions/'' @ dir @ ''/'' @ name @ ''.jpg'') \<noteq> None"
    and "length (filter (resizeError env) (resizeThreads env cfg content)) < imThreadConcurrency cfg"
  shows "roundsSettled env cfg content"
  by (rule roundsSettledI) (rule all_roles_fulfilled [OF assms])

subsection \<open>The invariant of the thread manager\<close>

lemma managerInv_init: "managerInv (ThreadManager c)"
  by (simp add: managerInv_def ThreadManager_def)

lemma managerInv_newThread: "managerInv m \<Longrightarrow> managerInv (newThread t m)"
  by (auto simp: managerInv_def newThread_def)

lemma length_remove1_running: "t \<in> set xs \<Longrightarrow> Suc (length (remove1 t xs)) = length xs"
  by (induction xs) auto

lemma managerInv_threadResolve: "managerInv m \<Longrightarrow> managerInv (threadResolve t m)"
proof (cases "t \<in> set (running m)")
  case False
  assume "managerInv m"
  with False show ?thesis by (simp add: threadResolve_def)
next
  case True
  assume inv: "managerInv m"
  from True have len: "Suc (length (remove1 t (running m))) = length (running m)"
    by (rule length_remove1_running)
  show ?thesis
  proof (cases "queue m")
    case Nil
    with True inv len show ?thesis
      by (auto simp: threadResolve_def managerInv_def)
  next
    case (Cons q qs)
    with True inv len show ?thesis
      by (auto simp: threadResolve_def managerInv_def)
  qed
qed

lemma capacity_step: "capacity (managerStep m e) = capacity m"
  by (cases e) (auto simp: newThread_def threadResolve_def split: list.splits)

lemma managerInv_step: "managerInv m \<Longrightarrow> managerInv (managerStep m e)"
  by (cases e) (simp_all add: managerInv_newThread managerInv_threadResolve)

lemma managerInv_run: "managerInv m \<Longrightarrow> managerInv (foldl managerStep m es)"
  by (induction es arbitrary: m) (simp_all add: managerInv_step)

lemma capacity_run: "capacity (foldl managerStep m es) = capacity m"
  by (induction es arbitrary: m) (simp_all add: capacity_step)

lemma run_identify:
  "threadManager_imIdentify (foldl runStep ms es) =
     foldl managerStep (threadManager_imIdentify ms) (identifyEvents es)"
  by (induction es arbitrary: ms rule: identifyEvents.induct) simp_all

lemma run_resize:
  "threadManager_imResize (foldl runStep ms es) =
     foldl managerStep (threadManager_imResize ms) (resizeEvents es)"
  by (induction es arbitrary: ms rule: resizeEvents.induct) simp_all

text \<open>
  The tasks that \<open>begins\<close> lets in are the tasks the manager has begun once every
  task still running is one that holds its slot, in every run in which the tasks that
  hold never call \<^verbatim>\<open>thread.resolve()\<close>.
\<close>

lemma begins_append:
  "begins c holds bs = bs \<Longrightarrow>
   begins c holds (bs @ qs) = bs @ begins (c - length (filter holds bs)) holds qs"
proof (induction bs arbitrary: c)
  case Nil
  then show ?case by simp
next
  case (Cons b bs)
  from Cons.prems have c: "c \<noteq> 0"
    by (auto split: if_splits)
  with Cons.prems have "begins (if holds b then c - 1 else c) holds bs = bs"
    by simp
  from Cons.IH [OF this] c show ?case
    by (cases "holds b") simp_all
qed

lemma filter_remove1_other: "\<not> P t \<Longrightarrow> filter P (remove1 t xs) = filter P xs"
  by (induction xs) auto

lemma holders_less: "t \<in> set xs \<Longrightarrow> \<not> P t \<Longrightarrow> length (filter P xs) < length xs"
  by (rule length_filter_less)

lemma holdersInv_init: "holdersInv holds (ThreadManager c)"
  by (simp add: holdersInv_def managerInv_init) (simp add: ThreadManager_def)

lemma holdersInv_newThread:
  assumes "holdersInv holds m"
  shows "holdersInv holds (newThread t m)"
proof (cases "length (running m) < capacity m")
  case True
  have inv: "managerInv (newThread t m)"
    using assms by (simp add: holdersInv_def managerInv_newThread)
  have h: "length (filter holds (begun m)) = length (filter holds (running m))"
    and b: "begins (capacity m) holds (begun m) = begun m"
    using assms by (simp_all add: holdersInv_def)
  have "length (filter holds (running m)) \<le> length (running m)"
    by simp
  with True h have free: "capacity m - length (filter holds (begun m)) \<noteq> 0"
    by arith
  have "begins (capacity m) holds (begun m @ [t]) = begun m @ [t]"
    using begins_append [OF b, of "[t]"] free by simp
  with True inv h show ?thesis
    by (simp add: holdersInv_def newThread_def)
next
  case False
  with assms show ?thesis
    using managerInv_newThread [of m t] by (simp add: holdersInv_def newThread_def)
qed

lemma holdersInv_threadResolve:
  assumes "holdersInv holds m" "\<not> holds t"
  shows "holdersInv holds (threadResolve t m)"
proof (cases "t \<in> set (running m)")
  case False
  with assms show ?thesis by (simp add: threadResolve_def)
next
  case True
  have inv: "managerInv (threadResolve t m)"
    using assms by (simp add: holdersInv_def managerInv_threadResolve)
  have h: "length (filter holds (begun m)) = length (filter holds (running m))"
    and b: "begins (capacity m) holds (begun m) = begun m"
    and le: "length (running m) \<le> capacity m"
    using assms by (simp_all add: holdersInv_def managerInv_def)
  have r: "filter holds (remove1 t (running m)) = filter holds (running m)"
    using assms(2) by (rule filter_remove1_other)
  have "length (filter holds (running m)) < length (running m)"
    using True assms(2) by (rule holders_less)
  with h le have free: "capacity m - length (filter holds (begun m)) \<noteq> 0"
    by arith
  show ?thesis
  proof (cases "queue m")
    case Nil
    with True inv h b r show ?thesis
      by (simp add: holdersInv_def threadResolve_def)
  next
    case (Cons q qs)
    have "begins (capacity m) holds (begun m @ [q]) = begun m @ [q]"
      using begins_append [OF b, of "[q]"] free by simp
    with Cons True inv h r show ?thesis
      by (simp add: holdersInv_def threadResolve_def)
  qed
qed

lemma holdersInv_run:
  "holdersInv holds m \<Longrightarrow> properFor holds es \<Longrightarrow> holdersInv holds (foldl managerStep m es)"
proof (induction es arbitrary: m)
  case Nil
  then show ?case by simp
next
  case (Cons e es)
  then show ?case
    by (cases e) (simp_all add: holdersInv_newThread holdersInv_threadResolve)
qed

lemma begins_quiescent:
  assumes "properFor holds es" and "\<forall>t \<in> set (running (foldl managerStep (ThreadManager c) es)). holds t"
  shows "begun (foldl managerStep (ThreadManager c) es) =
         begins c holds (submitted (foldl managerStep (ThreadManager c) es))"
proof -
  let ?m = "foldl managerStep (ThreadManager c) es"
  have inv: "holdersInv holds ?m"
    using holdersInv_init assms(1) by (rule holdersInv_run)
  have c: "capacity ?m = c"
    by (simp add: capacity_run ThreadManager_def)
  have b: "begins c holds (begun ?m) = begun ?m"
    and h: "length (filter holds (begun ?m)) = length (filter holds (running ?m))"
    and s: "begun ?m @ queue ?m = submitted ?m"
    and q: "queue ?m = [] \<or> length (running ?m) = c"
    using inv c by (simp_all add: holdersInv_def managerInv_def)
  have all: "filter holds (running ?m) = running ?m"
    using assms(2) by simp
  have "begins (c - length (filter holds (begun ?m))) holds (queue ?m) = []"
  proof (cases "queue ?m")
    case Nil
    then show ?thesis by simp
  next
    case (Cons x xs)
    with q have "length (running ?m) = c" by simp
    with h all have "c - length (filter holds (begun ?m)) = 0" by simp
    then show ?thesis by (simp add: Cons)
  qed
  with begins_append [OF b, of "queue ?m"] s show ?thesis
    by simp
qed

subsection \<open>The width keys and the API path\<close>

text \<open>
  The width keys of an image whose promise is fulfilled are the configured widths whose
  resize succeeded. The API path is the path after the output directory when the name
  of the directory is not empty and does not occur in the rest of the path, and the
  whole path when it does not occur at all.
\<close>

lemma saveSrcs_keys_eq:
  "fst ` set (saveSrcs ps acc) = fst ` set acc \<union> {fst p | p. p \<in> set ps \<and> fulfilled (snd p)}"
proof (induction ps acc rule: saveSrcs.induct)
  case (2 sz fileName ps acc)
  have "set (map fst (AList.update sz fileName acc)) = insert sz (set (map fst acc))"
    by (auto simp: update_keys)
  then have "fst ` set (AList.update sz fileName acc) = insert sz (fst ` set acc)"
    by simp
  with 2 show ?case by auto
qed auto

lemma variant_fulfilled:
  "fulfilled (createImageVariant env cfg began srcImg outputDir sz k r q) =
     (began (r, q, imgName srcImg, k) \<and> \<not> resizeError env (r, q, imgName srcImg, k))"
  by (simp add: createImageVariant_def)

lemma srcs_keys:
  assumes "future (createImageVariants env cfg began imgPath distDir name r q) = Fulfilled v"
  shows "fst ` set (srcs v) =
           {imgSizes cfg ! k | k. k < length (imgSizes cfg) \<and> \<not> resizeError env (r, q, name, k)}"
proof -
  obtain srcImg where s: "identified env cfg imgPath name r q = Some srcImg"
    using assms by (auto simp: createImageVariants_future split: option.splits)
  let ?vs = "imgVariantPromises env cfg began srcImg
      (distDir @ ''round-'' @ showNat r @ ''/'' @ ''question-'' @ showId q) r q"
  have n: "imgName srcImg = name"
    using s by (rule identified_imgName)
  have st: "list_all settled ?vs" and v: "srcs v = saveSrcs (zip (imgSizes cfg) ?vs) []"
    using assms s by (auto simp: createImageVariants_future Let_def split: if_splits)
  have bg: "\<forall>k < length (imgSizes cfg). began (r, q, name, k)"
    using st n by (simp add: settled_variants)
  have len: "length ?vs = length (imgSizes cfg)"
    by (simp add: imgVariantPromises_def)
  have nth: "fulfilled (?vs ! k) = (\<not> resizeError env (r, q, name, k))" if "k < length (imgSizes cfg)" for k
    using that bg n by (simp add: imgVariantPromises_def nth_enumerate_eq variant_fulfilled)
  have "{fst p | p. p \<in> set (zip (imgSizes cfg) ?vs) \<and> fulfilled (snd p)} =
      {imgSizes cfg ! k | k. k < length (imgSizes cfg) \<and> \<not> resizeError env (r, q, name, k)}"
    using len nth by (auto simp: set_zip) 
  then show ?thesis
    by (simp add: v saveSrcs_keys_eq)
qed

lemma splitFrom_absent:
  "sep \<noteq> [] \<Longrightarrow> \<not> sublist sep s \<Longrightarrow> splitFrom sep acc s = [rev acc @ s]"
proof (induction s arbitrary: acc)
  case Nil
  then show ?case by simp
next
  case (Cons c cs)
  have "take (length sep) (c # cs) \<noteq> sep"
  proof
    assume "take (length sep) (c # cs) = sep"
    then have "c # cs = sep @ drop (length sep) (c # cs)"
      by (metis append_take_drop_id)
    then have "sublist sep (c # cs)"
      by (metis sublist_appendI sublist_order.order_refl append_Nil sublist_def)
    with Cons.prems show False by simp
  qed
  moreover have "\<not> sublist sep cs"
    using Cons.prems(2) by (auto simp: sublist_Cons_right)
  ultimately show ?case
    using Cons.IH [of "c # acc"] Cons.prems(1) by simp
qed

lemma splitFrom_prefix:
  assumes "sep \<noteq> []"
  shows "splitFrom sep acc (sep @ rest) = rev acc # splitFrom sep [] rest"
proof -
  obtain c cs where c: "sep @ rest = c # cs"
    using assms by (cases sep) auto
  have "splitFrom sep acc (c # cs) =
      (if sep \<noteq> [] \<and> take (length sep) (c # cs) = sep
       then rev acc # splitFrom sep [] (drop (length sep) (c # cs))
       else splitFrom sep (c # acc) cs)"
    by (rule splitFrom.simps(2))
  then show ?thesis
    unfolding c [symmetric] using assms by simp
qed

lemma jsSplit_prefix:
  assumes "sep \<noteq> []" "\<not> sublist sep rest"
  shows "jsSplit (sep @ rest) sep = [[], rest]"
  using assms by (simp add: jsSplit_def splitFrom_prefix splitFrom_absent)

lemma apiFilePath_stripped:
  assumes "apiOutputDir cfg \<noteq> []" "\<not> sublist (apiOutputDir cfg) rest"
  shows "apiFilePath cfg (apiOutputDir cfg @ rest) = apiPathPrefix cfg @ rest"
  by (simp add: apiFilePath_def jsSplit_prefix [OF assms])

lemma apiFilePath_unchanged:
  assumes "apiOutputDir cfg \<noteq> []" "\<not> sublist (apiOutputDir cfg) p"
  shows "apiFilePath cfg p = p"
  using assms by (simp add: apiFilePath_def jsSplit_def splitFrom_absent)

subsection \<open>The sample runs\<close>

text \<open>
  The runs over the sample content that the witnesses below use.
\<close>

lemma sample_files_wf: "requireJson env = sampleFiles \<Longrightarrow> \<not> malformed env ''q0'' \<and> \<not> malformed env ''q1'' \<and> \<not> malformed env ''zz''"
  by (simp add: malformed_def getQuestionData_def sampleFiles_def)

lemma sample_wf: "requireJson env = sampleFiles \<Longrightarrow> wellFormed env sampleContent"
  using sample_files_wf [of env]
  by (simp add: wellFormed_def wellFormedRound_def sampleContent_def exampleDir_def)

lemma example_wf: "wellFormed sampleEnv contentWithExample"
  using sample_files_wf [of sampleEnv]
  by (simp add: wellFormed_def wellFormedRound_def contentWithExample_def exampleDir_def sampleEnv_def)

lemma badref_wf: "wellFormed sampleEnv contentWithBadRef"
  using sample_files_wf [of sampleEnv]
  by (simp add: wellFormed_def wellFormedRound_def contentWithBadRef_def exampleDir_def sampleEnv_def)

lemma onlybad_wf: "wellFormed sampleEnv contentOnlyBadRef"
  using sample_files_wf [of sampleEnv]
  by (simp add: wellFormed_def wellFormedRound_def contentOnlyBadRef_def exampleDir_def sampleEnv_def)

lemma mix_fails_wf: "wellFormed envMixResizeFails sampleContent"
  by (rule sample_wf) (simp add: envMixResizeFails_def sampleEnv_def)

lemma first_fails_wf: "wellFormed envFirstResizeFails sampleContent"
  by (rule sample_wf) (simp add: envFirstResizeFails_def sampleEnv_def)

lemma no_mix_wf: "wellFormed envNoMix sampleContent"
  by (rule sample_wf) (simp add: envNoMix_def sampleEnv_def)

lemma mix_fails_threads:
  "resizeThreads envMixResizeFails sampleConfig sampleContent =
     [(0, Num 0, ''a'', 0), (0, Num 0, ''a'', 1), (0, Num 0, ''b'', 0), (0, Num 0, ''b'', 1),
      (0, Num 0, ''mix'', 0), (0, Num 0, ''mix'', 1),
      (0, Num 1, ''a'', 0), (0, Num 1, ''a'', 1), (0, Num 1, ''b'', 0), (0, Num 1, ''b'', 1),
      (0, Num 1, ''mix'', 0), (0, Num 1, ''mix'', 1)]"
  by code_simp

lemma mix_fails_few:
  "length (filter (resizeError envMixResizeFails) (resizeThreads envMixResizeFails sampleConfig sampleContent))
     < imThreadConcurrency sampleConfig"
  unfolding mix_fails_threads by (simp add: envMixResizeFails_def sampleConfig_def defaults_def)

lemma mix_fails_ident:
  assumes "rd \<in> set sampleContent" "dir \<in> set (questions rd) \<or> example rd = Some dir"
    "requireJson envMixResizeFails (''../src/questions/'' @ dir @ ''/index.json'') = Inr (JObj d)"
    "name \<in> set imgKeys"
  shows "identify envMixResizeFails (''./src/questions/'' @ dir @ ''/'' @ name @ ''.png'') \<noteq> None \<or>
         identify envMixResizeFails (''./src/questions/'' @ dir @ ''/'' @ name @ ''.jpg'') \<noteq> None"
  using assms
  by (auto simp: sampleContent_def imgKeys_def envMixResizeFails_def sampleEnv_def sampleImages_def)

lemma mix_fails_settled: "roundsSettled envMixResizeFails sampleConfig sampleContent"
  using rounds_settle [OF mix_fails_wf mix_fails_ident mix_fails_few] by simp

lemma mix_fails_made: "resizeThreads envMixResizeFails sampleConfig sampleContent \<noteq> []"
  unfolding mix_fails_threads by simp

lemma mix_fails_calls:
  "numberedCalls envMixResizeFails (hd sampleContent) 0 = [question0, question1]"
  by code_simp

lemma mix_fails_value:
  "questionValue envMixResizeFails sampleConfig (resizeBegan envMixResizeFails sampleConfig sampleContent)
     question0 =
   \<lparr> author = [(''answer'', JStr ''x'')], questionId = Num 0,
     roundData = \<lparr> title = ''Round 1'', roundId = 0 \<rparr>,
     imgs = Some [(''a'', \<lparr> aspectRatio = Some (1 / 2),
                     srcs = [(320, ''/imgs/round-0/question-0/a/r0q0.a.320.jpg''),
                             (640, ''/imgs/round-0/question-0/a/r0q0.a.640.jpg'')] \<rparr>),
                 (''b'', \<lparr> aspectRatio = Some (1 / 2),
                     srcs = [(320, ''/imgs/round-0/question-0/b/r0q0.b.320.jpg''),
                             (640, ''/imgs/round-0/question-0/b/r0q0.b.640.jpg'')] \<rparr>),
                 (''mix'', \<lparr> aspectRatio = Some (1 / 2), srcs = [] \<rparr>)] \<rparr>"
  by code_simp

lemma first_fails_threads:
  "resizeThreads envFirstResizeFails sampleConfig sampleContent =
     [(0, Num 0, ''a'', 0), (0, Num 0, ''a'', 1), (0, Num 0, ''b'', 0), (0, Num 0, ''b'', 1),
      (0, Num 0, ''mix'', 0), (0, Num 0, ''mix'', 1),
      (0, Num 1, ''a'', 0), (0, Num 1, ''a'', 1), (0, Num 1, ''b'', 0), (0, Num 1, ''b'', 1),
      (0, Num 1, ''mix'', 0), (0, Num 1, ''mix'', 1)]"
  by code_simp

lemma first_fails_few:
  "length (filter (resizeError envFirstResizeFails) (resizeThreads envFirstResizeFails sampleConfig sampleContent))
     < imThreadConcurrency sampleConfig"
  unfolding first_fails_threads by (simp add: envFirstResizeFails_def sampleConfig_def defaults_def)

lemma first_fails_ident:
  assumes "rd \<in> set sampleContent" "dir \<in> set (questions rd) \<or> example rd = Some dir"
    "requireJson envFirstResizeFails (''../src/questions/'' @ dir @ ''/index.json'') = Inr (JObj d)"
    "name \<in> set imgKeys"
  shows "identify envFirstResizeFails (''./src/questions/'' @ dir @ ''/'' @ name @ ''.png'') \<noteq> None \<or>
         identify envFirstResizeFails (''./src/questions/'' @ dir @ ''/'' @ name @ ''.jpg'') \<noteq> None"
  using assms
  by (auto simp: sampleContent_def imgKeys_def envFirstResizeFails_def sampleEnv_def sampleImages_def)

lemma first_fails_settled: "roundsSettled envFirstResizeFails sampleConfig sampleContent"
  using rounds_settle [OF first_fails_wf first_fails_ident first_fails_few] by simp

lemma first_fails_made: "resizeThreads envFirstResizeFails sampleConfig sampleContent \<noteq> []"
  unfolding first_fails_threads by simp

lemma first_fails_began: "\<not> resizeBegan envFirstResizeFails oneSlotConfig sampleContent (0, Num 0, ''a'', 1)"
  by code_simp

lemma first_fails_call: "question0 \<in> set (questionCalls envFirstResizeFails (hd sampleContent) 0)"
  by code_simp

lemma first_fails_blocked: "\<not> roundsSettled envFirstResizeFails oneSlotConfig sampleContent"
proof -
  have "(0, hd sampleContent) \<in> set (enumerate 0 sampleContent)"
    by (simp add: sampleContent_def)
  from unbegun_blocks [OF this first_fails_call [unfolded question0_def], of "''a''" 1 oneSlotConfig]
  show ?thesis
    using first_fails_began by (simp add: imgKeys_def oneSlotConfig_def sampleConfig_def)
qed

lemma no_failures: "length (filter (resizeError sampleEnv) ts) < imThreadConcurrency sampleConfig"
  by (simp add: sampleEnv_def sampleConfig_def defaults_def)

lemma example_ident:
  assumes "rd \<in> set contentWithExample" "dir \<in> set (questions rd) \<or> example rd = Some dir"
    "requireJson sampleEnv (''../src/questions/'' @ dir @ ''/index.json'') = Inr (JObj d)"
    "name \<in> set imgKeys"
  shows "identify sampleEnv (''./src/questions/'' @ dir @ ''/'' @ name @ ''.png'') \<noteq> None \<or>
         identify sampleEnv (''./src/questions/'' @ dir @ ''/'' @ name @ ''.jpg'') \<noteq> None"
  using assms
  by (auto simp: contentWithExample_def imgKeys_def sampleEnv_def sampleImages_def)

lemma example_settled: "roundsSettled sampleEnv sampleConfig contentWithExample"
  using rounds_settle [OF example_wf example_ident no_failures] by simp

lemma example_made: "(0, Num 0, ''a'', 0) \<in> set (resizeThreads sampleEnv sampleConfig contentWithExample)"
  by code_simp

lemma example_build:
  "buildApiMaster sampleEnv sampleConfig contentWithExample =
     Inr \<lparr> future = Fulfilled (), logs = concat (map logs (roundRuns sampleEnv sampleConfig contentWithExample)),
           written = [(apiOutputDir sampleConfig @ ''index.json'',
             \<lparr> rounds = map (Some \<circ> roundValue sampleEnv sampleConfig
                                (resizeBegan sampleEnv sampleConfig contentWithExample))
                          (enumerate 0 contentWithExample) \<rparr>)],
           success = True \<rparr>"
proof -
  have "resizeThreads sampleEnv sampleConfig contentWithExample \<noteq> []"
    using example_made by auto
  then show ?thesis
    by (rule completes [OF example_wf example_settled])
qed

lemma example_calls:
  "exampleCalls sampleEnv \<lparr> title = ''Round 1'', questions = [''q0''], example = Some ''q1'' \<rparr> 0 =
     [(''q1'', \<lparr> author = [(''answer'', JStr ''y'')], questionId = Str ''e'',
               roundData = \<lparr> title = ''Round 1'', roundId = 0 \<rparr>, imgs = None \<rparr>)]"
  by code_simp

lemma badref_ident:
  assumes "rd \<in> set contentWithBadRef" "dir \<in> set (questions rd) \<or> example rd = Some dir"
    "requireJson sampleEnv (''../src/questions/'' @ dir @ ''/index.json'') = Inr (JObj d)"
    "name \<in> set imgKeys"
  shows "identify sampleEnv (''./src/questions/'' @ dir @ ''/'' @ name @ ''.png'') \<noteq> None \<or>
         identify sampleEnv (''./src/questions/'' @ dir @ ''/'' @ name @ ''.jpg'') \<noteq> None"
  using assms
  by (auto simp: contentWithBadRef_def imgKeys_def sampleEnv_def sampleImages_def sampleFiles_def)

lemma badref_settled: "roundsSettled sampleEnv sampleConfig contentWithBadRef"
  using rounds_settle [OF badref_wf badref_ident no_failures] by simp

lemma badref_made: "(0, Num 0, ''a'', 0) \<in> set (resizeThreads sampleEnv sampleConfig contentWithBadRef)"
  by code_simp

lemma badref_calls:
  "numberedCalls sampleEnv \<lparr> title = ''Round 1'', questions = [''q0'', ''zz'', ''q1''], example = None \<rparr> 0 =
     [question0, question1]"
  by code_simp

lemma badref_build:
  "buildApiMaster sampleEnv sampleConfig contentWithBadRef =
     Inr \<lparr> future = Fulfilled (), logs = concat (map logs (roundRuns sampleEnv sampleConfig contentWithBadRef)),
           written = [(apiOutputDir sampleConfig @ ''index.json'',
             \<lparr> rounds = map (Some \<circ> roundValue sampleEnv sampleConfig
                                (resizeBegan sampleEnv sampleConfig contentWithBadRef))
                          (enumerate 0 contentWithBadRef) \<rparr>)],
           success = True \<rparr>"
proof -
  have "resizeThreads sampleEnv sampleConfig contentWithBadRef \<noteq> []"
    using badref_made by auto
  then show ?thesis
    by (rule completes [OF badref_wf badref_settled])
qed

lemma onlybad_threads: "resizeThreads sampleEnv sampleConfig contentOnlyBadRef = []"
  by code_simp

lemma onlybad_no_dir: "\<not> indexDirExists sampleEnv sampleConfig contentOnlyBadRef"
  unfolding indexDirExists_def outputTree_def onlybad_threads by code_simp

lemma onlybad_rounds:
  "roundRuns sampleEnv sampleConfig contentOnlyBadRef =
     [\<lparr> future = Fulfilled \<lparr> title = ''Round 1'', roundId = 0, questionsData = [], exampleData = None \<rparr>,
        logs = [RequireError ''../src/questions/zz/index.json''] \<rparr>]"
  by code_simp

lemma no_mix_blocked: "\<not> roundsSettled envNoMix sampleConfig sampleContent"
  by (rule missing_source_blocks [of 0 sampleContent "''q1''" envNoMix "[(''answer'', JStr ''y'')]" "''mix''"])
     (simp_all add: sampleContent_def envNoMix_def sampleEnv_def sampleFiles_def sampleImages_def imgKeys_def)

lemma no_mix_threads:
  "resizeThreads envNoMix sampleConfig sampleContent =
     [(0, Num 0, ''a'', 0), (0, Num 0, ''a'', 1), (0, Num 0, ''b'', 0), (0, Num 0, ''b'', 1),
      (0, Num 0, ''mix'', 0), (0, Num 0, ''mix'', 1),
      (0, Num 1, ''a'', 0), (0, Num 1, ''a'', 1), (0, Num 1, ''b'', 0), (0, Num 1, ''b'', 1)]"
  by code_simp

lemma no_mix_few:
  "length (filter (resizeError envNoMix) (resizeThreads envNoMix sampleConfig sampleContent))
     < imThreadConcurrency sampleConfig"
  by (simp add: envNoMix_def sampleEnv_def sampleConfig_def defaults_def)

lemma no_mix_began:
  "list_all (resizeBegan envNoMix sampleConfig sampleContent) (resizeThreads envNoMix sampleConfig sampleContent)"
  using resizeBegan_all [OF no_mix_few] by (simp add: list_all_iff)

lemma no_mix_calls: "questionCalls envNoMix (hd sampleContent) 0 = [question0, question1]"
  by code_simp

lemma no_mix_question0:
  "future (createQuestionsImages envNoMix sampleConfig (resizeBegan envNoMix sampleConfig sampleContent)
      ''q0'' (snd question0)) =
   Fulfilled
     \<lparr> author = [(''answer'', JStr ''x'')], questionId = Num 0,
       roundData = \<lparr> title = ''Round 1'', roundId = 0 \<rparr>,
       imgs = Some [(''a'', \<lparr> aspectRatio = Some (1 / 2),
                       srcs = [(320, ''/imgs/round-0/question-0/a/r0q0.a.320.jpg''),
                               (640, ''/imgs/round-0/question-0/a/r0q0.a.640.jpg'')] \<rparr>),
                   (''b'', \<lparr> aspectRatio = Some (1 / 2),
                       srcs = [(320, ''/imgs/round-0/question-0/b/r0q0.b.320.jpg''),
                               (640, ''/imgs/round-0/question-0/b/r0q0.b.640.jpg'')] \<rparr>),
                   (''mix'', \<lparr> aspectRatio = Some (1 / 2),
                       srcs = [(320, ''/imgs/round-0/question-0/mix/r0q0.mix.320.jpg''),
                               (640, ''/imgs/round-0/question-0/mix/r0q0.mix.640.jpg'')] \<rparr>)] \<rparr>"
  by code_simp

lemma no_mix_role_a:
  "future (roleRun envNoMix sampleConfig (resizeBegan envNoMix sampleConfig sampleContent)
      ''q1'' (snd question1) ''a'') =
   Fulfilled \<lparr> aspectRatio = Some (1 / 2),
               srcs = [(320, ''/imgs/round-0/question-1/a/r0q1.a.320.jpg''),
                       (640, ''/imgs/round-0/question-1/a/r0q1.a.640.jpg'')] \<rparr>"
  by code_simp

lemma no_mix_role_b:
  "future (roleRun envNoMix sampleConfig (resizeBegan envNoMix sampleConfig sampleContent)
      ''q1'' (snd question1) ''b'') =
   Fulfilled \<lparr> aspectRatio = Some (1 / 2),
               srcs = [(320, ''/imgs/round-0/question-1/b/r0q1.b.320.jpg''),
                       (640, ''/imgs/round-0/question-1/b/r0q1.b.640.jpg'')] \<rparr>"
  by code_simp

lemma no_mix_role_mix:
  "roleRun envNoMix sampleConfig (resizeBegan envNoMix sampleConfig sampleContent)
      ''q1'' (snd question1) ''mix'' =
   \<lparr> future = Pending, logs = [NotFound ''./src/questions/q1/mix''] \<rparr>"
  by code_simp

section \<open>The claims\<close>

subsection \<open>C1: failures below the top level and the end of the build\<close>

text \<open>
  Claim C1, as amended. The claim says that no failure of a child task keeps the build
  from its terminal state. That holds for failed resizes as long as fewer of them fail
  than the resize manager has slots, in the runs in which no question file is
  malformed, every image of every loaded question is identified in one of the two
  formats, and at least one image variant is made (a size is configured and a question
  loads): then \<^verbatim>\<open>buildApiMaster\<close> returns, \<^verbatim>\<open>taskComplete\<close> is resolved, the
  success line is printed and the index is written. It does not hold for an image that
  is identified in neither format (\<open>C1_counterexample\<close>, and claim C2).
\<close>

theorem C1_build_completes:
  assumes wf: "wellFormed env content"
    and ident: "\<And>rd dir d name. rd \<in> set content \<Longrightarrow>
        dir \<in> set (questions rd) \<or> example rd = Some dir \<Longrightarrow>
        requireJson env (''../src/questions/'' @ dir @ ''/index.json'') = Inr (JObj d) \<Longrightarrow>
        name \<in> set imgKeys \<Longrightarrow>
        identify env (''./src/questions/'' @ dir @ ''/'' @ name @ ''.png'') \<noteq> None \<or>
        identify env (''./src/questions/'' @ dir @ ''/'' @ name @ ''.jpg'') \<noteq> None"
    and few: "length (filter (resizeError env) (resizeThreads env cfg content)) < imThreadConcurrency cfg"
    and sizes: "imgSizes cfg \<noteq> []"
    and rd0: "rd0 \<in> set content"
    and dir0: "dir0 \<in> set (questions rd0) \<or> (example rd0 = Some dir0 \<and> dir0 \<noteq> [])"
    and d0: "requireJson env (''../src/questions/'' @ dir0 @ ''/index.json'') = Inr (JObj d0)"
  shows "\<exists>b. buildApiMaster env cfg content = Inr b \<and> future b = Fulfilled () \<and> success b \<and>
           length (written b) = 1"
proof -
  have role: "fulfilled (future (roleRun env cfg (resizeBegan env cfg content) dir q name))"
    if "(i, rd) \<in> set (enumerate 0 content)" "(dir, q) \<in> set (questionCalls env rd i)"
      "name \<in> set imgKeys" for i rd dir q name
    by (rule all_roles_fulfilled [OF wf ident few that])
  then have settled: "roundsSettled env cfg content"
    by (rule roundsSettledI)
  obtain i0 where "i0 < length content" "content ! i0 = rd0"
    using rd0 by (auto simp: in_set_conv_nth)
  then have i0: "(i0, rd0) \<in> set (enumerate 0 content)"
    by (simp add: in_set_enumerate_eq)
  have "dir0 \<in> set (questions rd0) \<or> dir0 \<in> set (exampleDir rd0)"
    using dir0 by (simp add: exampleDir_iff)
  then obtain q0 where q0: "(dir0, q0) \<in> set (questionCalls env rd0 i0)"
    using call_loaded [OF _ d0] by blast
  have a: "''a'' \<in> set imgKeys"
    by (simp add: imgKeys_def)
  have "roundId (roundData q0) = i0"
    using q0 by (simp add: call_roundId)
  then have idf: "identified env cfg (imgPathOf dir0 ''a'') ''a'' i0 (questionId q0) \<noteq> None"
    using role [OF i0 q0 a] by (simp add: fulfilled_role)
  have "0 < length (imgSizes cfg)"
    using sizes by simp
  then have "(i0, questionId q0, ''a'', 0) \<in> set (resizeThreads env cfg content)"
    by (rule resizeThreads_mem [OF wf i0 q0 a idf])
  then have made: "resizeThreads env cfg content \<noteq> []"
    by auto
  show ?thesis
    using completes [OF wf settled made] by simp
qed

text \<open>
  The theorem at the sample content, where both resizes of image \<^verbatim>\<open>mix\<close> of question
  0 fail.
\<close>

theorem C1_build_completes_witness:
  "\<exists>b. buildApiMaster envMixResizeFails sampleConfig sampleContent = Inr b \<and> future b = Fulfilled () \<and>
     success b \<and> length (written b) = 1"
proof (rule C1_build_completes [OF mix_fails_wf _ mix_fails_few])
  fix rd dir d name
  assume "rd \<in> set sampleContent" "dir \<in> set (questions rd) \<or> example rd = Some dir"
    "requireJson envMixResizeFails (''../src/questions/'' @ dir @ ''/index.json'') = Inr (JObj d)"
    "name \<in> set imgKeys"
  then show "identify envMixResizeFails (''./src/questions/'' @ dir @ ''/'' @ name @ ''.png'') \<noteq> None \<or>
      identify envMixResizeFails (''./src/questions/'' @ dir @ ''/'' @ name @ ''.jpg'') \<noteq> None"
    by (rule mix_fails_ident)
next
  show "imgSizes sampleConfig \<noteq> []"
    by (simp add: sampleConfig_def)
  show "hd sampleContent \<in> set sampleContent"
    by (simp add: sampleContent_def)
  show "''q0'' \<in> set (questions (hd sampleContent)) \<or>
      (example (hd sampleContent) = Some ''q0'' \<and> ''q0'' \<noteq> [])"
    by (simp add: sampleContent_def)
  show "requireJson envMixResizeFails (''../src/questions/'' @ ''q0'' @ ''/index.json'') =
      Inr (JObj [(''answer'', JStr ''x'')])"
    by (simp add: envMixResizeFails_def sampleEnv_def sampleFiles_def)
qed

text \<open>
  The claim as stated fails where image \<^verbatim>\<open>mix\<close> of \<^verbatim>\<open>q1\<close> is found in neither
  format: \<^verbatim>\<open>taskComplete\<close> never settles and the success line is never printed.
\<close>

theorem C1_counterexample:
  "\<exists>b. buildApiMaster envNoMix sampleConfig sampleContent = Inr b \<and> future b = Pending \<and>
     success b = False"
  using never_completes [OF no_mix_wf no_mix_blocked] by simp

subsection \<open>C2: an image found in neither format\<close>

text \<open>
  Claim C2, as amended. When, for an image of a question that was loaded (a numbered
  question or the example), neither the png nor the jpg file yields metadata, the error
  \<^verbatim>\<open>"<imgPath>" not found\<close> is logged and thrown inside the handler of the
  settle-all, where it is lost: \<^verbatim>\<open>buildApiMaster\<close> returns as usual and no promise
  of the program is rejected. The promise of the image is never resolved, so the run
  never completes: \<^verbatim>\<open>taskComplete\<close> never settles, the index is not written and
  the success line is not printed. The remaining work is carried out: as long as fewer
  resizes fail than the resize manager has slots, the promise of every image that is
  identified is fulfilled, with the widths whose resize succeeded.

  The claim as stated, that the error propagates out of the processing of the image and
  that the remaining work does not complete, fails (\<open>C2_counterexample\<close>).
\<close>

theorem C2_missing_source_image:
  assumes wf: "wellFormed env content"
    and i: "i < length content"
    and dir: "dir \<in> set (questions (content ! i)) \<or> (example (content ! i) = Some dir \<and> dir \<noteq> [])"
    and d: "requireJson env (''../src/questions/'' @ dir @ ''/index.json'') = Inr (JObj d)"
    and name: "name \<in> set imgKeys"
    and png: "identify env (''./src/questions/'' @ dir @ ''/'' @ name @ ''.png'') = None"
    and jpg: "identify env (''./src/questions/'' @ dir @ ''/'' @ name @ ''.jpg'') = None"
  shows "(\<exists>b. buildApiMaster env cfg content = Inr b \<and> future b = Pending \<and> written b = [] \<and>
              success b = False \<and>
              (0 < imThreadConcurrency cfg \<longrightarrow>
                 NotFound (''./src/questions/'' @ dir @ ''/'' @ name) \<in> set (logs b))) \<and>
         (length (filter (resizeError env) (resizeThreads env cfg content)) < imThreadConcurrency cfg \<longrightarrow>
            (\<forall>j rd c calls errs dir' q name'.
               (j, rd) \<in> set (enumerate 0 content) \<longrightarrow> questionLoop env rd j = Inr (c, calls, errs) \<longrightarrow>
               (dir', q) \<in> set calls \<longrightarrow> name' \<in> set imgKeys \<longrightarrow>
               identified env cfg (imgPathOf dir' name') name' j (questionId q) \<noteq> None \<longrightarrow>
               (\<exists>v. future (roleRun env cfg (resizeBegan env cfg content) dir' q name') = Fulfilled v \<and>
                    fst ` set (srcs v) =
                      {imgSizes cfg ! k | k. k < length (imgSizes cfg) \<and>
                                            \<not> resizeError env (j, questionId q, name', k)})))"
proof (intro conjI impI allI)
  let ?began = "resizeBegan env cfg content"
  have mem: "(i, content ! i) \<in> set (enumerate 0 content)"
    using i by (simp add: in_set_enumerate_eq)
  from missing_source_call [OF i dir d png jpg] obtain q
    where q: "(dir, q) \<in> set (questionCalls env (content ! i) i)"
      and none: "identified env cfg (imgPathOf dir name) name (roundId (roundData q)) (questionId q) = None"
    by blast
  have ns: "\<not> roundsSettled env cfg content"
    using i dir d name png jpg by (rule missing_source_blocks)
  have p: "imgPathOf dir name = ''./src/questions/'' @ dir @ ''/'' @ name"
    by (simp add: imgPathOf_def)
  have lg: "0 < imThreadConcurrency cfg \<Longrightarrow>
      NotFound (imgPathOf dir name) \<in> set (logs (roleRun env cfg ?began dir q name))"
    using none by (simp add: roleRun_def createImageVariants_logs)
  have l: "0 < imThreadConcurrency cfg \<Longrightarrow>
      NotFound (''./src/questions/'' @ dir @ ''/'' @ name) \<in> set (concat (map logs (roundRuns env cfg content)))"
    using logs_role_mem [OF mem q name lg] unfolding p .
  show "\<exists>b. buildApiMaster env cfg content = Inr b \<and> future b = Pending \<and> written b = [] \<and>
          success b = False \<and>
          (0 < imThreadConcurrency cfg \<longrightarrow>
             NotFound (''./src/questions/'' @ dir @ ''/'' @ name) \<in> set (logs b))"
    using never_completes [OF wf ns] l by simp
next
  fix j rd c calls errs dir' q name'
  let ?began = "resizeBegan env cfg content"
  assume few: "length (filter (resizeError env) (resizeThreads env cfg content)) < imThreadConcurrency cfg"
    and mem: "(j, rd) \<in> set (enumerate 0 content)"
    and loop: "questionLoop env rd j = Inr (c, calls, errs)"
    and call: "(dir', q) \<in> set calls"
    and name': "name' \<in> set imgKeys"
    and idf: "identified env cfg (imgPathOf dir' name') name' j (questionId q) \<noteq> None"
  have "wellFormedRound env rd"
    using wf mem by (rule wellFormed_round)
  then have "calls = questionCalls env rd j"
    using loop by (simp add: questionLoop_eq)
  then have q: "(dir', q) \<in> set (questionCalls env rd j)"
    using call by simp
  have r: "roundId (roundData q) = j"
    using q by (simp add: call_roundId)
  have "fulfilled (future (roleRun env cfg ?began dir' q name'))"
    by (rule identified_role_fulfilled [OF wf few mem q name' idf])
  then obtain v where v: "future (roleRun env cfg ?began dir' q name') = Fulfilled v"
    by (auto simp: fulfilled_iff)
  then have "fst ` set (srcs v) =
      {imgSizes cfg ! k | k. k < length (imgSizes cfg) \<and> \<not> resizeError env (j, questionId q, name', k)}"
    unfolding roleRun_def r by (rule srcs_keys)
  with v show "\<exists>v. future (roleRun env cfg ?began dir' q name') = Fulfilled v \<and>
      fst ` set (srcs v) =
        {imgSizes cfg ! k | k. k < length (imgSizes cfg) \<and> \<not> resizeError env (j, questionId q, name', k)}"
    by blast
qed

text \<open>
  The theorem where image \<^verbatim>\<open>mix\<close> of \<^verbatim>\<open>q1\<close> is missing: the build never
  completes, and image \<^verbatim>\<open>a\<close> of \<^verbatim>\<open>q1\<close> is made in both widths.
\<close>

theorem C2_missing_source_image_witness:
  "(\<exists>b. buildApiMaster envNoMix sampleConfig sampleContent = Inr b \<and> future b = Pending \<and>
        written b = [] \<and> success b = False \<and> NotFound ''./src/questions/q1/mix'' \<in> set (logs b)) \<and>
   (\<exists>v. future (roleRun envNoMix sampleConfig (resizeBegan envNoMix sampleConfig sampleContent)
              ''q1'' (snd question1) ''a'') = Fulfilled v \<and>
        fst ` set (srcs v) = {320, 640})"
proof -
  have c: "0 < length sampleContent"
    "''q1'' \<in> set (questions (sampleContent ! 0)) \<or> (example (sampleContent ! 0) = Some ''q1'' \<and> ''q1'' \<noteq> [])"
    "requireJson envNoMix (''../src/questions/'' @ ''q1'' @ ''/index.json'') = Inr (JObj [(''answer'', JStr ''y'')])"
    "''mix'' \<in> set imgKeys"
    "identify envNoMix (''./src/questions/'' @ ''q1'' @ ''/'' @ ''mix'' @ ''.png'') = None"
    "identify envNoMix (''./src/questions/'' @ ''q1'' @ ''/'' @ ''mix'' @ ''.jpg'') = None"
    by (simp_all add: sampleContent_def envNoMix_def sampleEnv_def sampleFiles_def sampleImages_def imgKeys_def)
  note t = C2_missing_source_image [OF no_mix_wf c, of sampleConfig]
  have conc: "0 < imThreadConcurrency sampleConfig"
    by (simp add: sampleConfig_def defaults_def)
  have first: "\<exists>b. buildApiMaster envNoMix sampleConfig sampleContent = Inr b \<and> future b = Pending \<and>
      written b = [] \<and> success b = False \<and> NotFound ''./src/questions/q1/mix'' \<in> set (logs b)"
    using t [THEN conjunct1] conc by simp
  have loop: "questionLoop envNoMix (hd sampleContent) 0 =
      Inr (length (loadable envNoMix (questions (hd sampleContent))), questionCalls envNoMix (hd sampleContent) 0,
           loadErrors envNoMix (questions (hd sampleContent)) @ loadErrors envNoMix (exampleDir (hd sampleContent)))"
    using wellFormed_round [OF no_mix_wf, of 0 "hd sampleContent" 0]
    by (simp add: questionLoop_eq sampleContent_def)
  have idf: "identified envNoMix sampleConfig (imgPathOf ''q1'' ''a'') ''a'' 0 (questionId (snd question1)) \<noteq> None"
    by code_simp
  have "\<exists>v. future (roleRun envNoMix sampleConfig (resizeBegan envNoMix sampleConfig sampleContent)
              ''q1'' (snd question1) ''a'') = Fulfilled v \<and>
        fst ` set (srcs v) =
          {imgSizes sampleConfig ! k | k. k < length (imgSizes sampleConfig) \<and>
             \<not> resizeError envNoMix (0, questionId (snd question1), ''a'', k)}"
  proof (rule t [THEN conjunct2, rule_format, OF no_mix_few _ loop _ _ idf])
    show "(0, hd sampleContent) \<in> set (enumerate 0 sampleContent)"
      by (simp add: sampleContent_def)
    show "(''q1'', snd question1) \<in> set (questionCalls envNoMix (hd sampleContent) 0)"
      unfolding no_mix_calls by (simp add: question1_def)
    show "''a'' \<in> set imgKeys"
      by (simp add: imgKeys_def)
  qed
  then obtain v where v: "future (roleRun envNoMix sampleConfig (resizeBegan envNoMix sampleConfig sampleContent)
              ''q1'' (snd question1) ''a'') = Fulfilled v"
    by blast
  then have "fst ` set (srcs v) = {320, 640}"
    unfolding no_mix_role_a by auto
  with v first show ?thesis
    by blast
qed

text \<open>
  Where image \<^verbatim>\<open>mix\<close> of \<^verbatim>\<open>q1\<close> is missing, \<^verbatim>\<open>buildApiMaster\<close> returns and
  \<^verbatim>\<open>taskComplete\<close> is pending, not rejected; the promise of the image is pending,
  not rejected; question \<^verbatim>\<open>q0\<close> and the images \<^verbatim>\<open>a\<close> and \<^verbatim>\<open>b\<close> of
  \<^verbatim>\<open>q1\<close> are done as usual, and each of the ten resizes of the run begins.
\<close>

theorem C2_counterexample:
  "(\<exists>b. buildApiMaster envNoMix sampleConfig sampleContent = Inr b \<and> future b = Pending) \<and>
   roleRun envNoMix sampleConfig (resizeBegan envNoMix sampleConfig sampleContent)
      ''q1'' (snd question1) ''mix'' =
     \<lparr> future = Pending, logs = [NotFound ''./src/questions/q1/mix''] \<rparr> \<and>
   fulfilled (future (createQuestionsImages envNoMix sampleConfig
      (resizeBegan envNoMix sampleConfig sampleContent) ''q0'' (snd question0))) \<and>
   future (roleRun envNoMix sampleConfig (resizeBegan envNoMix sampleConfig sampleContent)
      ''q1'' (snd question1) ''a'') =
     Fulfilled \<lparr> aspectRatio = Some (1 / 2),
                 srcs = [(320, ''/imgs/round-0/question-1/a/r0q1.a.320.jpg''),
                         (640, ''/imgs/round-0/question-1/a/r0q1.a.640.jpg'')] \<rparr> \<and>
   future (roleRun envNoMix sampleConfig (resizeBegan envNoMix sampleConfig sampleContent)
      ''q1'' (snd question1) ''b'') =
     Fulfilled \<lparr> aspectRatio = Some (1 / 2),
                 srcs = [(320, ''/imgs/round-0/question-1/b/r0q1.b.320.jpg''),
                         (640, ''/imgs/round-0/question-1/b/r0q1.b.640.jpg'')] \<rparr> \<and>
   length (resizeThreads envNoMix sampleConfig sampleContent) = 10 \<and>
   list_all (resizeBegan envNoMix sampleConfig sampleContent)
     (resizeThreads envNoMix sampleConfig sampleContent)"
proof -
  have "\<exists>b. buildApiMaster envNoMix sampleConfig sampleContent = Inr b \<and> future b = Pending"
    using never_completes [OF no_mix_wf no_mix_blocked] by simp
  moreover have "length (resizeThreads envNoMix sampleConfig sampleContent) = 10"
    unfolding no_mix_threads by simp
  moreover have "fulfilled (future (createQuestionsImages envNoMix sampleConfig
      (resizeBegan envNoMix sampleConfig sampleContent) ''q0'' (snd question0)))"
    unfolding no_mix_question0 by simp
  ultimately show ?thesis
    using no_mix_role_mix no_mix_role_a no_mix_role_b no_mix_began by blast
qed

subsection \<open>C3: the index file is written once, after all rounds\<close>

text \<open>
  Claim C3, as amended. In a run in which \<^verbatim>\<open>buildApiMaster\<close> returns, the index
  file is written at most once, and only when the promise of every round has settled:
  the index then holds every round. It is written when the promise of every round has
  settled and at least one image variant was made. It is not written when the promise
  of some round never settles, so the claim as stated, that every run writes the file
  exactly once, fails (\<open>C3_counterexample\<close>).
\<close>

theorem C3_index_written_once:
  assumes "buildApiMaster env cfg content = Inr b" and "forEachRound env cfg content = Inr runs"
  shows "length (written b) \<le> 1 \<and>
         (written b \<noteq> [] \<longrightarrow>
            list_all (\<lambda>r. settled (future r)) runs \<and>
            written b = [(apiOutputDir cfg @ ''index.json'',
                          \<lparr> rounds = map Some (fulfilledValues (map future runs)) \<rparr>)] \<and>
            length (fulfilledValues (map future runs)) = length content) \<and>
         (list_all (\<lambda>r. settled (future r)) runs \<and> resizeThreads env cfg content \<noteq> [] \<longrightarrow>
            written b \<noteq> [])"
proof -
  have wf: "wellFormed env content"
    using assms(1) by (rule buildApiMaster_Inr)
  have runs: "runs = roundRuns env cfg content"
    using assms(2) wf by (simp add: forEachRound_eq)
  have s: "list_all (\<lambda>r. settled (future r)) (roundRuns env cfg content) = roundsSettled env cfg content"
    by (simp add: roundsSettled_def)
  note w = build_fields(3) [OF assms(1)]
  have one: "length (written b) \<le> 1"
    by (simp add: w)
  have two: "list_all (\<lambda>r. settled (future r)) runs \<and>
      written b = [(apiOutputDir cfg @ ''index.json'',
                    \<lparr> rounds = map Some (fulfilledValues (map future runs)) \<rparr>)] \<and>
      length (fulfilledValues (map future runs)) = length content" if "written b \<noteq> []"
  proof -
    from that have st: "roundsSettled env cfg content" and dir: "indexDirExists env cfg content"
      by (simp_all add: w split: if_splits)
    show ?thesis
      unfolding runs s using st dir apiIndex_value [OF st] roundValues [OF st] by (simp add: w)
  qed
  have three: "written b \<noteq> []"
    if "list_all (\<lambda>r. settled (future r)) runs \<and> resizeThreads env cfg content \<noteq> []"
    using that made_indexDir [of env cfg content] unfolding runs s by (simp add: w)
  show ?thesis
    using one two three by blast
qed

theorem C3_index_written_once_witness:
  "\<exists>b runs. buildApiMaster envMixResizeFails sampleConfig sampleContent = Inr b \<and>
     forEachRound envMixResizeFails sampleConfig sampleContent = Inr runs \<and>
     length (written b) \<le> 1 \<and> list_all (\<lambda>r. settled (future r)) runs \<and>
     written b = [(''./dist/api/index.json'', \<lparr> rounds = map Some (fulfilledValues (map future runs)) \<rparr>)] \<and>
     length (fulfilledValues (map future runs)) = 1"
proof -
  obtain b where b: "buildApiMaster envMixResizeFails sampleConfig sampleContent = Inr b"
    using completes [OF mix_fails_wf mix_fails_settled mix_fails_made] by blast
  have runs: "forEachRound envMixResizeFails sampleConfig sampleContent =
      Inr (roundRuns envMixResizeFails sampleConfig sampleContent)"
    using mix_fails_wf by (simp add: forEachRound_eq)
  have s: "list_all (\<lambda>r. settled (future r)) (roundRuns envMixResizeFails sampleConfig sampleContent)"
    using mix_fails_settled by (simp add: roundsSettled_def)
  from C3_index_written_once [OF b runs] s mix_fails_made
  have "length (written b) \<le> 1 \<and>
     written b = [(apiOutputDir sampleConfig @ ''index.json'',
        \<lparr> rounds = map Some (fulfilledValues (map future (roundRuns envMixResizeFails sampleConfig sampleContent))) \<rparr>)] \<and>
     length (fulfilledValues (map future (roundRuns envMixResizeFails sampleConfig sampleContent))) =
       length sampleContent"
    by blast
  then show ?thesis
    using b runs s by (simp add: sampleConfig_def defaults_def sampleContent_def)
qed

text \<open>A run that writes no index file: image \<^verbatim>\<open>mix\<close> of \<^verbatim>\<open>q1\<close> is missing.\<close>

theorem C3_counterexample:
  "\<exists>b. buildApiMaster envNoMix sampleConfig sampleContent = Inr b \<and> length (written b) = 0"
  using never_completes [OF no_mix_wf no_mix_blocked] by simp

subsection \<open>C4: the identities of the questions of a round\<close>

text \<open>
  Claim C4, as amended. In every round of the index that is written, the numbered
  questions are the references whose file loaded, in the declared order, with the
  identities \<open>0, 1, \<dots>, n - 1\<close>; the example, when the round names one that loads, is
  kept apart in \<^verbatim>\<open>exampleData\<close> and takes no number. Its identity is the string
  \<^verbatim>\<open>e\<close>, not the string \<^verbatim>\<open>example\<close> of the claim (\<open>C4_counterexample\<close>).
\<close>

theorem C4_question_ids:
  assumes "buildApiMaster env cfg content = Inr b" and "written b = [(file, data)]"
    and "i < length content"
  shows "\<exists>out qs. rounds data ! i = Some out \<and> roundId out = i \<and>
           questionsData out = map Some qs \<and>
           map questionId qs = map Num [0..<length qs] \<and>
           map author qs = map snd (loadable env (questions (content ! i))) \<and>
           (exampleData out = None \<or> (\<exists>q. exampleData out = Some q \<and> questionId q = Str ''e'')) \<and>
           ((exampleData out \<noteq> None) =
              (\<exists>dir d. example (content ! i) = Some dir \<and> dir \<noteq> [] \<and>
                 requireJson env (''../src/questions/'' @ dir @ ''/index.json'') = Inr (JObj d)))"
proof -
  let ?began = "resizeBegan env cfg content"
  let ?out = "roundValue env cfg ?began (i, content ! i)"
  let ?qs = "map (questionValue env cfg ?began) (numberedCalls env (content ! i) i)"
  have r: "rounds data ! i = Some ?out"
    using written_cases [OF assms(1,2)] assms(3) by (simp add: nth_enumerate_eq)
  have q: "questionsData ?out = map Some ?qs"
    by (simp add: roundValue_def)
  have ids: "map questionId ?qs = map Num [0..<length ?qs]"
    using numbered_ids [of env cfg ?began "content ! i" i] by simp
  have au: "map author ?qs = map snd (loadable env (questions (content ! i)))"
    using numbered_authors [of env cfg ?began "content ! i" i] by simp
  have ex: "exampleData ?out = None \<or> (\<exists>q. exampleData ?out = Some q \<and> questionId q = Str ''e'')"
  proof (cases "exampleCalls env (content ! i) i")
    case Nil
    then show ?thesis by (simp add: roundValue_def)
  next
    case (Cons c rest)
    then have "c \<in> set (exampleCalls env (content ! i) i)" by simp
    then have "questionId (snd c) = Str ''e''" by (rule exampleCalls_id)
    then show ?thesis
      using Cons by (simp add: roundValue_def questionValue_fields)
  qed
  have "(exampleData ?out \<noteq> None) = (loadable env (exampleDir (content ! i)) \<noteq> [])"
    by (cases "loadable env (exampleDir (content ! i))") (simp_all add: roundValue_def exampleCalls_def)
  then have ex2: "(exampleData ?out \<noteq> None) =
      (\<exists>dir d. example (content ! i) = Some dir \<and> dir \<noteq> [] \<and>
         requireJson env (''../src/questions/'' @ dir @ ''/index.json'') = Inr (JObj d))"
    by (simp only: loadable_example)
  have rid: "roundId ?out = i"
    by (simp add: roundValue_def)
  show ?thesis
    using r rid q ids au ex ex2 by blast
qed

theorem C4_question_ids_witness:
  "\<exists>b out qs. buildApiMaster sampleEnv sampleConfig contentWithExample = Inr b \<and>
     rounds (snd (hd (written b))) ! 0 = Some out \<and>
     roundId out = 0 \<and> questionsData out = map Some qs \<and>
     map questionId qs = map Num [0..<length qs] \<and>
     map author qs = [[(''answer'', JStr ''x'')]] \<and>
     (exampleData out = None \<or> (\<exists>q. exampleData out = Some q \<and> questionId q = Str ''e'')) \<and>
     exampleData out \<noteq> None"
proof -
  obtain b where b: "buildApiMaster sampleEnv sampleConfig contentWithExample = Inr b"
    and wb: "written b = [(apiOutputDir sampleConfig @ ''index.json'',
        \<lparr> rounds = map (Some \<circ> roundValue sampleEnv sampleConfig
                           (resizeBegan sampleEnv sampleConfig contentWithExample))
                     (enumerate 0 contentWithExample) \<rparr>)]"
    using example_build by simp
  have w: "written b = [(fst (hd (written b)), snd (hd (written b)))]"
    by (simp add: wb)
  have l: "map snd (loadable sampleEnv (questions (contentWithExample ! 0))) = [[(''answer'', JStr ''x'')]]"
    by code_simp
  have e: "\<exists>dir d. example (contentWithExample ! 0) = Some dir \<and> dir \<noteq> [] \<and>
      requireJson sampleEnv (''../src/questions/'' @ dir @ ''/index.json'') = Inr (JObj d)"
    by (simp add: contentWithExample_def sampleEnv_def sampleFiles_def)
  have i: "0 < length contentWithExample"
    by (simp add: contentWithExample_def)
  from C4_question_ids [OF b w i] obtain out qs where
    o: "rounds (snd (hd (written b))) ! 0 = Some out" "roundId out = 0" "questionsData out = map Some qs"
       "map questionId qs = map Num [0..<length qs]"
       "map author qs = map snd (loadable sampleEnv (questions (contentWithExample ! 0)))"
       "exampleData out = None \<or> (\<exists>q. exampleData out = Some q \<and> questionId q = Str ''e'')"
    and x: "(exampleData out \<noteq> None) =
       (\<exists>dir d. example (contentWithExample ! 0) = Some dir \<and> dir \<noteq> [] \<and>
          requireJson sampleEnv (''../src/questions/'' @ dir @ ''/index.json'') = Inr (JObj d))"
    by blast
  have "exampleData out \<noteq> None"
    using x e by simp
  then show ?thesis
    using b o unfolding l by (intro exI [of _ b] exI [of _ out] exI [of _ qs]) simp
qed

text \<open>
  The identity of the example question in the index written for a round with the
  example \<^verbatim>\<open>q1\<close>.
\<close>

theorem C4_counterexample:
  "\<exists>b. buildApiMaster sampleEnv sampleConfig contentWithExample = Inr b \<and>
     map (map_option (\<lambda>out. map_option questionId (exampleData out))) (rounds (snd (hd (written b))))
       = [Some (Some (Str ''e''))] \<and> Str ''e'' \<noteq> Str ''example''"
  unfolding example_build
  by (simp add: contentWithExample_def roundValue_def example_calls questionValue_fields)

subsection \<open>C5: a question whose file does not load\<close>

text \<open>
  Claim C5 says that a question whose file is absent or does not parse is logged and
  left out, and that the build still completes and writes the index file. The first
  part is what \<^verbatim>\<open>getQuestionData\<close> and \<^verbatim>\<open>processRound\<close> do. The second fails
  when no other question loads: \<^verbatim>\<open>buildApiMaster\<close> has deleted
  \<^verbatim>\<open>config.apiOutputDir\<close> and nothing has made it again, as only
  \<^verbatim>\<open>createImageVariant\<close> makes directories, so \<^verbatim>\<open>saveJsonApi\<close> throws in the
  handler of the settle-all. For the round whose only question is the missing
  \<^verbatim>\<open>zz\<close>, the promise of the round is fulfilled with no question, and then the
  index is not written, the success line is not printed and \<^verbatim>\<open>taskComplete\<close>
  never settles. For the round with \<^verbatim>\<open>zz\<close> between \<^verbatim>\<open>q0\<close> and \<^verbatim>\<open>q1\<close> the
  build does what the claim says: the error is logged, and the index is written with
  the questions 0 and 1 of the files of \<^verbatim>\<open>q0\<close> and \<^verbatim>\<open>q1\<close>.
\<close>

theorem C5_unloadable_question:
  "getQuestionData sampleEnv ''zz'' = (JNull, [RequireError ''../src/questions/zz/index.json'']) \<and>
   forEachRound sampleEnv sampleConfig contentOnlyBadRef =
     Inr [\<lparr> future = Fulfilled \<lparr> title = ''Round 1'', roundId = 0, questionsData = [], exampleData = None \<rparr>,
            logs = [RequireError ''../src/questions/zz/index.json''] \<rparr>] \<and>
   buildApiMaster sampleEnv sampleConfig contentOnlyBadRef =
     Inr \<lparr> future = Pending, logs = [RequireError ''../src/questions/zz/index.json''],
           written = [], success = False \<rparr> \<and>
   (\<exists>b. buildApiMaster sampleEnv sampleConfig contentWithBadRef = Inr b \<and>
        future b = Fulfilled () \<and> success b = True \<and>
        RequireError ''../src/questions/zz/index.json'' \<in> set (logs b) \<and>
        map fst (written b) = [''./dist/api/index.json''] \<and>
        map (\<lambda>w. map (map_option (\<lambda>out. map (map_option (\<lambda>q. (questionId q, author q))) (questionsData out)))
                   (rounds (snd w))) (written b) =
          [[Some [Some (Num 0, [(''answer'', JStr ''x'')]), Some (Num 1, [(''answer'', JStr ''y'')])]]])"
proof -
  have g: "getQuestionData sampleEnv ''zz'' = (JNull, [RequireError ''../src/questions/zz/index.json''])"
    by (simp add: getQuestionData_def sampleEnv_def sampleFiles_def)
  have r: "forEachRound sampleEnv sampleConfig contentOnlyBadRef =
     Inr [\<lparr> future = Fulfilled \<lparr> title = ''Round 1'', roundId = 0, questionsData = [], exampleData = None \<rparr>,
            logs = [RequireError ''../src/questions/zz/index.json''] \<rparr>]"
    using onlybad_wf by (simp add: forEachRound_eq onlybad_rounds)
  have s: "roundsSettled sampleEnv sampleConfig contentOnlyBadRef"
    by (simp add: roundsSettled_def onlybad_rounds)
  have b: "buildApiMaster sampleEnv sampleConfig contentOnlyBadRef =
     Inr \<lparr> future = Pending, logs = [RequireError ''../src/questions/zz/index.json''],
           written = [], success = False \<rparr>"
    using onlybad_no_dir by (simp add: buildApiMaster_eq [OF onlybad_wf] onlybad_rounds)
  have l: "RequireError ''../src/questions/zz/index.json''
      \<in> set (concat (map logs (roundRuns sampleEnv sampleConfig contentWithBadRef)))"
    by (rule logs_load_mem [of "hd contentWithBadRef" _ "''zz''"])
       (simp_all add: contentWithBadRef_def g)
  have v: "map (\<lambda>c. (questionId c, author c))
      (map (questionValue sampleEnv sampleConfig (resizeBegan sampleEnv sampleConfig contentWithBadRef))
         [question0, question1]) =
      [(Num 0, [(''answer'', JStr ''x'')]), (Num 1, [(''answer'', JStr ''y'')])]"
    by (simp add: questionValue_fields question0_def question1_def)
  have "\<exists>b. buildApiMaster sampleEnv sampleConfig contentWithBadRef = Inr b \<and>
        future b = Fulfilled () \<and> success b = True \<and>
        RequireError ''../src/questions/zz/index.json'' \<in> set (logs b) \<and>
        map fst (written b) = [''./dist/api/index.json''] \<and>
        map (\<lambda>w. map (map_option (\<lambda>out. map (map_option (\<lambda>q. (questionId q, author q))) (questionsData out)))
                   (rounds (snd w))) (written b) =
          [[Some [Some (Num 0, [(''answer'', JStr ''x'')]), Some (Num 1, [(''answer'', JStr ''y'')])]]]"
    unfolding badref_build using l v
    by (simp add: contentWithBadRef_def roundValue_def badref_calls sampleConfig_def defaults_def comp_def)
  with g r b show ?thesis
    by blast
qed

subsection \<open>C6: the width keys of an image\<close>

text \<open>
  Claim C6 says that a failed resize takes away the key of its width only and leaves
  every other width, image and question as it is. \<^verbatim>\<open>createImageVariant\<close> returns
  from the callback of a failed resize before \<^verbatim>\<open>thread.resolve()\<close>, so the failed
  task keeps its slot of the resize manager. With one slot, and the resize of image
  \<^verbatim>\<open>a\<close> of question 0 at the first width failing, no later resize begins: the build
  never completes and writes no index. With the twenty slots of the defaults the same
  run completes.
\<close>

theorem C6_failed_resize_keeps_slot:
  "(\<exists>b. buildApiMaster envFirstResizeFails oneSlotConfig sampleContent = Inr b \<and>
        future b = Pending \<and> written b = [] \<and> success b = False) \<and>
   (\<exists>b. buildApiMaster envFirstResizeFails sampleConfig sampleContent = Inr b \<and> success b = True)"
  using never_completes [OF first_fails_wf first_fails_blocked]
    completes [OF first_fails_wf first_fails_settled first_fails_made]
  by simp

subsection \<open>C7: an image that exists in both formats\<close>

text \<open>
  Claim C7, as amended. Both identifications save their metadata to the same object, so
  the source of an image is the file whose identification answered last among those that
  yielded metadata: the jpg file when png answers first, the png file when jpg answers
  first. The choice is independent of that order when at most one of the two files
  yields metadata. The claim as stated, that two runs over the same inputs pick the same
  format, fails when both files exist (\<open>C7_counterexample\<close>).
\<close>

theorem C7_last_answer_wins:
  assumes "0 < imThreadConcurrency cfg"
  shows "identified env cfg imgPath name r q =
     (if jpgAnswersFirst env (r, q, name) then
        (case identify env (imgPath @ ''.png'') of
           Some md \<Rightarrow> Some \<lparr> metadata = md, path = imgPath @ ''.png'', imgName = name \<rparr>
         | None \<Rightarrow> (case identify env (imgPath @ ''.jpg'') of
              Some md \<Rightarrow> Some \<lparr> metadata = md, path = imgPath @ ''.jpg'', imgName = name \<rparr>
            | None \<Rightarrow> None))
      else
        (case identify env (imgPath @ ''.jpg'') of
           Some md \<Rightarrow> Some \<lparr> metadata = md, path = imgPath @ ''.jpg'', imgName = name \<rparr>
         | None \<Rightarrow> (case identify env (imgPath @ ''.png'') of
              Some md \<Rightarrow> Some \<lparr> metadata = md, path = imgPath @ ''.png'', imgName = name \<rparr>
            | None \<Rightarrow> None))) \<and>
     (identify env (imgPath @ ''.png'') = None \<or> identify env (imgPath @ ''.jpg'') = None \<longrightarrow>
        identified (env\<lparr> jpgAnswersFirst := order \<rparr>) cfg imgPath name r q =
        identified env cfg imgPath name r q)"
  using assms by (auto simp: identified_cases split: option.splits)

theorem C7_last_answer_wins_witness:
  "identified envJpgFirst sampleConfig ''./src/questions/q0/a'' ''a'' 0 (Num 0) =
     Some \<lparr> metadata = \<lparr> height = 300, width = 200 \<rparr>, path = ''./src/questions/q0/a.png'', imgName = ''a'' \<rparr> \<and>
   identified (envJpgFirst\<lparr> jpgAnswersFirst := (\<lambda>r. False) \<rparr>) sampleConfig ''./src/questions/q0/b'' ''b'' 0 (Num 0) =
     identified envJpgFirst sampleConfig ''./src/questions/q0/b'' ''b'' 0 (Num 0)"
  using C7_last_answer_wins [of sampleConfig envJpgFirst "''./src/questions/q0/a''" "''a''" 0 "Num 0"]
    C7_last_answer_wins [of sampleConfig envJpgFirst "''./src/questions/q0/b''" "''b''" 0 "Num 0" "\<lambda>r. False"]
  by (simp add: sampleConfig_def defaults_def envJpgFirst_def sampleEnv_def sampleImages_def)

text \<open>
  Two runs that agree on the question files, on what identify answers for every file and
  on the resizes, and differ in which identification of image \<^verbatim>\<open>a\<close> of \<^verbatim>\<open>q0\<close>
  answers first: one resolves the jpg file, the other the png file, whose proportions
  differ.
\<close>

theorem C7_counterexample:
  "requireJson envJpgFirst = requireJson sampleEnv \<and> identify envJpgFirst = identify sampleEnv \<and>
   resizeError envJpgFirst = resizeError sampleEnv \<and>
   identified sampleEnv sampleConfig ''./src/questions/q0/a'' ''a'' 0 (Num 0) =
     Some \<lparr> metadata = \<lparr> height = 100, width = 200 \<rparr>, path = ''./src/questions/q0/a.jpg'', imgName = ''a'' \<rparr> \<and>
   identified envJpgFirst sampleConfig ''./src/questions/q0/a'' ''a'' 0 (Num 0) =
     Some \<lparr> metadata = \<lparr> height = 300, width = 200 \<rparr>, path = ''./src/questions/q0/a.png'', imgName = ''a'' \<rparr>"
proof -
  have "identified sampleEnv sampleConfig ''./src/questions/q0/a'' ''a'' 0 (Num 0) =
     Some \<lparr> metadata = \<lparr> height = 100, width = 200 \<rparr>, path = ''./src/questions/q0/a.jpg'', imgName = ''a'' \<rparr>"
    by code_simp
  moreover have "identified envJpgFirst sampleConfig ''./src/questions/q0/a'' ''a'' 0 (Num 0) =
     Some \<lparr> metadata = \<lparr> height = 300, width = 200 \<rparr>, path = ''./src/questions/q0/a.png'', imgName = ''a'' \<rparr>"
    by code_simp
  ultimately show ?thesis
    by (simp add: envJpgFirst_def)
qed

subsection \<open>C8: the path of a variant in the API\<close>

text \<open>
  Claim C8 says that the path returned for a variant is the path of the file with the
  output directory stripped and the API prefix put in front. The code splits the path at
  every occurrence of \<^verbatim>\<open>config.apiOutputDir\<close> and keeps the piece of index 1 only, so
  the path is cut short when the directory name occurs in it a second time. With the
  output directory \<^verbatim>\<open>a/\<close> the variant of image \<^verbatim>\<open>a\<close> is written to
  \<^verbatim>\<open>a/imgs/round-0/question-0/a/r0q0.a.320.jpg\<close> and the path returned is
  \<^verbatim>\<open>/imgs/round-0/question-0/\<close>; with the default directory the path is as claimed.
\<close>

theorem C8_api_path_cut_short:
  "outputFileName configDirA srcImgA ''a/imgs/round-0/question-0'' 320 0 (Num 0) =
     ''a/imgs/round-0/question-0/a/r0q0.a.320.jpg'' \<and>
   createImageVariant sampleEnv configDirA (\<lambda>t. True) srcImgA ''a/imgs/round-0/question-0'' 320 0 0 (Num 0) =
     Fulfilled ''/imgs/round-0/question-0/'' \<and>
   createImageVariant sampleEnv defaults (\<lambda>t. True) srcImgA ''./dist/api/imgs/round-0/question-0'' 320 0 0 (Num 0) =
     Fulfilled ''/imgs/round-0/question-0/a/r0q0.a.320.jpg''"
  by code_simp

subsection \<open>C9: the two thread managers\<close>

text \<open>
  Claim C9, on the thread manager modelled from the spec. The program has one manager
  for identification and one for resizing, both of the capacity
  \<^verbatim>\<open>config.imThreadConcurrency\<close>; an event on one leaves the other as it is. After
  any sequence of submissions and completions, a manager of capacity \<open>c\<close> runs at most
  \<open>c\<close> tasks, the tasks it has begun followed by its queue are the tasks submitted, in
  the order submitted, and a task waits only while \<open>c\<close> tasks run.
\<close>

theorem C9_thread_managers:
  "threadManager_imIdentify (foldl runStep (setUpManagers cfg) es) =
     foldl managerStep (ThreadManager (imThreadConcurrency cfg)) (identifyEvents es) \<and>
   threadManager_imResize (foldl runStep (setUpManagers cfg) es) =
     foldl managerStep (ThreadManager (imThreadConcurrency cfg)) (resizeEvents es) \<and>
   capacity (foldl managerStep (ThreadManager c) evs) = c \<and>
   length (running (foldl managerStep (ThreadManager c) evs)) \<le> c \<and>
   begun (foldl managerStep (ThreadManager c) evs) @ queue (foldl managerStep (ThreadManager c) evs)
     = submitted (foldl managerStep (ThreadManager c) evs) \<and>
   (queue (foldl managerStep (ThreadManager c) evs) = [] \<or>
    length (running (foldl managerStep (ThreadManager c) evs)) = c)"
proof -
  have "managerInv (foldl managerStep (ThreadManager c) evs)"
    by (rule managerInv_run [OF managerInv_init])
  moreover have "capacity (foldl managerStep (ThreadManager c) evs) = c"
    by (simp add: capacity_run ThreadManager_def)
  ultimately show ?thesis
    by (simp add: managerInv_def run_identify run_resize setUpManagers_def)
qed

text \<open>Four submissions to a manager of two slots, then the first task completes.\<close>

theorem C9_thread_managers_witness:
  "running (foldl managerStep (ThreadManager 2)
      [NewThread (1::nat), NewThread 2, NewThread 3, NewThread 4, ThreadResolve 1]) = [2, 3] \<and>
   queue (foldl managerStep (ThreadManager 2)
      [NewThread (1::nat), NewThread 2, NewThread 3, NewThread 4, ThreadResolve 1]) = [4] \<and>
   length (running (foldl managerStep (ThreadManager 2)
      [NewThread (1::nat), NewThread 2, NewThread 3, NewThread 4, ThreadResolve 1])) \<le> 2"
  using C9_thread_managers [of defaults "[]" 2 "[NewThread (1::nat), NewThread 2, NewThread 3, NewThread 4, ThreadResolve 1]"]
  by (simp add: ThreadManager_def newThread_def threadResolve_def)

subsection \<open>C10: the image keys of a question\<close>

text \<open>
  Claim C10. Every question of an index that is written, numbered or example, has an
  \<^verbatim>\<open>imgs\<close> object with the keys \<^verbatim>\<open>a\<close>, \<^verbatim>\<open>b\<close> and \<^verbatim>\<open>mix\<close>: the key of
  every image that was identified, whatever its resizes did; and the width keys of each
  image are among the configured sizes. (An image that was not identified leaves no
  index at all, by claim C2.) In the witness both resizes of image \<^verbatim>\<open>mix\<close> of question
  0 fail: its key is there with an empty \<^verbatim>\<open>srcs\<close>.
\<close>

theorem C10_role_keys:
  assumes "buildApiMaster env cfg content = Inr b" and "written b = [(file, data)]"
    and "Some out \<in> set (rounds data)"
    and "Some q \<in> set (questionsData out) \<or> exampleData out = Some q"
  shows "\<exists>m. imgs q = Some m \<and> map fst m = imgKeys \<and>
           (\<forall>d \<in> snd ` set m. fst ` set (srcs d) \<subseteq> set (imgSizes cfg))"
proof -
  let ?began = "resizeBegan env cfg content"
  have s: "roundsSettled env cfg content"
    and d: "data = \<lparr> rounds = map (Some \<circ> roundValue env cfg ?began) (enumerate 0 content) \<rparr>"
    using written_cases [OF assms(1,2)] by blast+
  obtain p where p: "p \<in> set (enumerate 0 content)" and out: "out = roundValue env cfg ?began p"
    using assms(3) d by auto
  have "fulfilled (future (roundRun env cfg ?began (snd p) (fst p)))"
    using s p by (auto simp: roundsSettled_iff)
  then have all: "\<forall>c \<in> set (questionCalls env (snd p) (fst p)).
      fulfilled (future (createQuestionsImages env cfg ?began (fst c) (snd c)))"
    by (auto simp: fulfilled_roundRun)
  have "\<exists>c \<in> set (questionCalls env (snd p) (fst p)). q = questionValue env cfg ?began c"
    using assms(4)
  proof
    assume "Some q \<in> set (questionsData out)"
    then show ?thesis
      by (auto simp: out roundValue_def questionCalls_split)
  next
    assume "exampleData out = Some q"
    then show ?thesis
      by (cases "exampleCalls env (snd p) (fst p)") (auto simp: out roundValue_def questionCalls_split)
  qed
  then obtain c where "c \<in> set (questionCalls env (snd p) (fst p))" "q = questionValue env cfg ?began c"
    by blast
  then show ?thesis
    using all questionValue_imgs by blast
qed

theorem C10_role_keys_witness:
  "imgs (questionValue envMixResizeFails sampleConfig (resizeBegan envMixResizeFails sampleConfig sampleContent)
      question0) =
     Some [(''a'', \<lparr> aspectRatio = Some (1 / 2),
                     srcs = [(320, ''/imgs/round-0/question-0/a/r0q0.a.320.jpg''),
                             (640, ''/imgs/round-0/question-0/a/r0q0.a.640.jpg'')] \<rparr>),
           (''b'', \<lparr> aspectRatio = Some (1 / 2),
                     srcs = [(320, ''/imgs/round-0/question-0/b/r0q0.b.320.jpg''),
                             (640, ''/imgs/round-0/question-0/b/r0q0.b.640.jpg'')] \<rparr>),
           (''mix'', \<lparr> aspectRatio = Some (1 / 2), srcs = [] \<rparr>)] \<and>
   (\<exists>m. imgs (questionValue envMixResizeFails sampleConfig
              (resizeBegan envMixResizeFails sampleConfig sampleContent) question0) = Some m \<and>
       map fst m = imgKeys \<and> (\<forall>d \<in> snd ` set m. fst ` set (srcs d) \<subseteq> set (imgSizes sampleConfig)))"
proof -
  let ?began = "resizeBegan envMixResizeFails sampleConfig sampleContent"
  let ?out = "roundValue envMixResizeFails sampleConfig ?began (0, hd sampleContent)"
  let ?data = "\<lparr> rounds = map (Some \<circ> roundValue envMixResizeFails sampleConfig ?began)
      (enumerate 0 sampleContent) \<rparr>"
  obtain b where b: "buildApiMaster envMixResizeFails sampleConfig sampleContent = Inr b"
    and w: "written b = [(apiOutputDir sampleConfig @ ''index.json'', ?data)]"
    using completes [OF mix_fails_wf mix_fails_settled mix_fails_made] by simp
  have o: "Some ?out \<in> set (rounds ?data)"
    by (simp add: sampleContent_def)
  have q: "Some (questionValue envMixResizeFails sampleConfig ?began question0) \<in> set (questionsData ?out) \<or>
      exampleData ?out = Some (questionValue envMixResizeFails sampleConfig ?began question0)"
    by (simp add: roundValue_def mix_fails_calls)
  show ?thesis
    using C10_role_keys [OF b w o q] mix_fails_value by simp
qed

end
